theory Spec2Isabelle
  imports Complex_Main "HOL-Library.Sublist" "HOL-Library.AList"
begin

section \<open>Strings\<close>

text \<open>
  A JavaScript string is modelled as a \<^typ>\<open>string\<close>, one \<^typ>\<open>char\<close> per code unit.
  The type strings, node names and slot ids the converter handles are ASCII identifiers,
  and the model of \<open>toLowerCase\<close> below is the ASCII one: it maps \<open>A\<close>..\<open>Z\<close> to
  \<open>a\<close>..\<open>z\<close> and leaves every other character alone.
\<close>

definition upperAZ :: string where
  "upperAZ = ''ABCDEFGHIJKLMNOPQRSTUVWXYZ''"

definition lowerAZ :: string where
  "lowerAZ = ''abcdefghijklmnopqrstuvwxyz''"

text \<open>The character class \<open>[A-Z]\<close> of the regular expression in \<open>getSimBlockType\<close>.\<close>

definition isUpperAZ :: "char \<Rightarrow> bool" where
  "isUpperAZ c = (c \<in> set upperAZ)"

definition toLowerCase_char :: "char \<Rightarrow> char" where
  "toLowerCase_char c = (case map_of (zip upperAZ lowerAZ) c of Some d \<Rightarrow> d | None \<Rightarrow> c)"

definition toLowerCase :: "string \<Rightarrow> string" where
  "toLowerCase s = map toLowerCase_char s"

text \<open>
  \<open>s.split(sep)\<close> for a one-character separator: the scan keeps the segment read so far
  in \<open>cur\<close> and closes it at every separator; the result always has one more segment
  than \<open>s\<close> has separators.
\<close>

fun split_from :: "char \<Rightarrow> string \<Rightarrow> string \<Rightarrow> string list" where
  "split_from sep cur [] = [cur]"
| "split_from sep cur (c # cs) =
     (if c = sep then cur # split_from sep [] cs else split_from sep (cur @ [c]) cs)"

definition js_split :: "char \<Rightarrow> string \<Rightarrow> string list" where
  "js_split sep s = split_from sep [] s"

text \<open>\<open>s.replace(/([A-Z])/g, '_$1')\<close>: every match of \<open>[A-Z]\<close> is replaced by \<open>_\<close> and itself.\<close>

definition replace_upper :: "string \<Rightarrow> string" where
  "replace_upper s = concat (map (\<lambda>c. if isUpperAZ c then [CHR ''_'', c] else [c]) s)"

text \<open>\<open>s.endsWith(suf)\<close>: the last \<open>length suf\<close> characters of \<open>s\<close> are \<open>suf\<close>.\<close>

definition endsWith :: "string \<Rightarrow> string \<Rightarrow> bool" where
  "endsWith s suf = (length suf \<le> length s \<and> drop (length s - length suf) s = suf)"


section \<open>The mapping table and the type resolver\<close>

record BlockTypeMapping =
  n8nType :: string
  simType_of :: string
  defaultHeight_of :: int

definition mk_mapping :: "string \<Rightarrow> string \<Rightarrow> int \<Rightarrow> BlockTypeMapping" where
  "mk_mapping n s h = \<lparr>n8nType = n, simType_of = s, defaultHeight_of = h\<rparr>"

definition BLOCK_TYPE_MAPPINGS :: "BlockTypeMapping list" where
  "BLOCK_TYPE_MAPPINGS =
   [ mk_mapping ''n8n-nodes-base.cron'' ''schedule'' 172,
     mk_mapping ''n8n-nodes-base.webhook'' ''webhook'' 172,
     mk_mapping ''n8n-nodes-base.manualTrigger'' ''manual_trigger'' 143,
     mk_mapping ''n8n-nodes-base.scheduleTrigger'' ''schedule'' 172,
     mk_mapping ''n8n-nodes-base.mySql'' ''mysql'' 230,
     mk_mapping ''n8n-nodes-base.postgres'' ''postgresql'' 230,
     mk_mapping ''n8n-nodes-base.mongodb'' ''mongodb'' 230,
     mk_mapping ''n8n-nodes-base.redis'' ''function'' 230,
     mk_mapping ''n8n-nodes-base.gmail'' ''gmail'' 288,
     mk_mapping ''n8n-nodes-base.slack'' ''slack'' 317,
     mk_mapping ''n8n-nodes-base.telegram'' ''telegram'' 259,
     mk_mapping ''n8n-nodes-base.discord'' ''discord'' 259,
     mk_mapping ''n8n-nodes-base.microsoftTeams'' ''microsoft_teams'' 143,
     mk_mapping ''n8n-nodes-base.microsoftOutlook'' ''outlook'' 201,
     mk_mapping ''n8n-nodes-base.googleSheets'' ''google_sheets'' 259,
     mk_mapping ''n8n-nodes-base.googleDrive'' ''google_drive'' 259,
     mk_mapping ''n8n-nodes-base.dropbox'' ''dropbox'' 259,
     mk_mapping ''n8n-nodes-base.airtable'' ''airtable'' 259,
     mk_mapping ''n8n-nodes-base.if'' ''condition'' 259,
     mk_mapping ''n8n-nodes-base.switch'' ''router'' 259,
     mk_mapping ''n8n-nodes-base.function'' ''function'' 143,
     mk_mapping ''n8n-nodes-base.code'' ''function'' 143,
     mk_mapping ''n8n-nodes-base.httpRequest'' ''api'' 259,
     mk_mapping ''n8n-nodes-base.webhook'' ''webhook'' 172,
     mk_mapping ''n8n-nodes-base.stripe'' ''stripe'' 143,
     mk_mapping ''n8n-nodes-base.wait'' ''wait'' 143,
     mk_mapping ''n8n-nodes-base.set'' ''function'' 143,
     mk_mapping ''n8n-nodes-base.merge'' ''function'' 143 ]"

text \<open>
  \<open>getSimBlockType\<close> returns the object \<open>{simType, defaultHeight}\<close>, here a pair.
  \<open>parts[parts.length - 1]\<close> is read only when \<open>parts.length > 1\<close>, so the index is in range.
\<close>

definition getSimBlockType :: "string \<Rightarrow> string \<times> int" where
  "getSimBlockType t =
     (case find (\<lambda>m. n8nType m = t) BLOCK_TYPE_MAPPINGS of
        Some mapping \<Rightarrow> (simType_of mapping, defaultHeight_of mapping)
      | None \<Rightarrow>
          (let parts = js_split CHR ''.'' t in
           if length parts > 1 then
             (let baseType = parts ! (length parts - 1);
                  snakeCase = toLowerCase (replace_upper baseType)
              in (snakeCase, 230))
           else (''function'', 143)))"

text \<open>
  The resolver as the specification words it, for comparison: the snake-case form puts
  an underscore before each \<^emph>\<open>internal\<close> upper-case letter, that is, before each one
  that is not the first character of the segment, and lowercases everything.
\<close>

definition snake_internal_spec :: "string \<Rightarrow> string" where
  "snake_internal_spec s =
     (case s of
        [] \<Rightarrow> []
      | c # cs \<Rightarrow>
          toLowerCase_char c #
          concat (map (\<lambda>d. if isUpperAZ d then [CHR ''_'', toLowerCase_char d]
                            else [toLowerCase_char d]) cs))"

definition resolve_spec :: "string \<Rightarrow> string \<times> int" where
  "resolve_spec t =
     (case find (\<lambda>m. n8nType m = t) BLOCK_TYPE_MAPPINGS of
        Some mapping \<Rightarrow> (simType_of mapping, defaultHeight_of mapping)
      | None \<Rightarrow>
          if CHR ''.'' \<in> set t
          then (snake_internal_spec (last (js_split CHR ''.'' t)), 230)
          else (''function'', 143))"

text \<open>What the code computes on the last segment: an underscore before every upper-case letter.\<close>

definition snake_every :: "string \<Rightarrow> string" where
  "snake_every s =
     concat (map (\<lambda>c. if isUpperAZ c then [CHR ''_'', toLowerCase_char c]
                       else [toLowerCase_char c]) s)"


section \<open>Trigger classification\<close>

definition triggerTypes :: "string list" where
  "triggerTypes =
   [ ''n8n-nodes-base.cron'',
     ''n8n-nodes-base.webhook'',
     ''n8n-nodes-base.manualTrigger'',
     ''n8n-nodes-base.scheduleTrigger'',
     ''n8n-nodes-base.stripe'',
     ''n8n-nodes-base.telegramTrigger'',
     ''n8n-nodes-base.slackTrigger'',
     ''n8n-nodes-base.githubTrigger'' ]"

text \<open>\<open>isTriggerNode\<close> reads only \<open>node.type\<close> of its first argument, which is passed here.\<close>

definition isTriggerNode :: "string \<Rightarrow> bool \<Rightarrow> bool" where
  "isTriggerNode node_type isFirstNode =
     (if node_type \<in> set triggerTypes then True
      else if endsWith node_type ''Trigger'' then True
      else isFirstNode)"


section \<open>JavaScript values\<close>

text \<open>
  The values that \<open>JSON.parse\<close> produces. A number is only copied or tested for being
  zero by the code, so it is a \<^typ>\<open>real\<close>; an object is the list of its own
  properties in the order \<open>Object.entries\<close> enumerates them, with distinct keys.
  A value of type \<open>any\<close> that may also be \<open>undefined\<close> is a \<open>json option\<close>,
  \<open>None\<close> being \<open>undefined\<close>: this is what reading a property gives in the validator,
  which reads only names that no object inherits.
\<close>

datatype json =
    JNull
  | JBool bool
  | JNum real
  | JStr string
  | JArr "json list"
  | JObj "(string \<times> json) list"

type_synonym jsval = "json option"

fun truthy_json :: "json \<Rightarrow> bool" where
  "truthy_json JNull = False"
| "truthy_json (JBool b) = b"
| "truthy_json (JNum n) = (n \<noteq> 0)"
| "truthy_json (JStr s) = (s \<noteq> [])"
| "truthy_json (JArr xs) = True"
| "truthy_json (JObj ps) = True"

definition truthy :: "jsval \<Rightarrow> bool" where
  "truthy v = (case v of None \<Rightarrow> False | Some j \<Rightarrow> truthy_json j)"

text \<open>
  The converter reads \<open>node.parameters[id]\<close> for an arbitrary slot id, and a read of a
  plain object also finds the members that the object inherits from \<open>Object.prototype\<close>.
  A value read there, or stored as a slot value, is therefore \<open>undefined\<close>, a JSON value,
  or the inherited member of a given name (a function; the prototype object itself for
  \<open>__proto__\<close>), which is truthy and not \<open>undefined\<close>.
\<close>

datatype jsany = Undefined | Json json | Inherited string

definition prototype_names :: "string list" where
  "prototype_names =
     [''constructor'', ''__defineGetter__'', ''__defineSetter__'', ''hasOwnProperty'',
      ''__lookupGetter__'', ''__lookupSetter__'', ''isPrototypeOf'', ''propertyIsEnumerable'',
      ''toString'', ''valueOf'', ''__proto__'', ''toLocaleString'']"

text \<open>\<open>obj[k]\<close> on a plain object: the own property, else the inherited member, else
  \<open>undefined\<close>.\<close>

definition read_property :: "(string \<times> json) list \<Rightarrow> string \<Rightarrow> jsany" where
  "read_property obj k =
     (case map_of obj k of
        Some v \<Rightarrow> Json v
      | None \<Rightarrow> if k \<in> set prototype_names then Inherited k else Undefined)"

fun truthy_any :: "jsany \<Rightarrow> bool" where
  "truthy_any Undefined = False"
| "truthy_any (Json j) = truthy_json j"
| "truthy_any (Inherited n) = True"

text \<open>\<open>a || b\<close>: \<open>a\<close> when it is truthy, \<open>b\<close> otherwise.\<close>

definition js_or :: "jsany \<Rightarrow> jsany \<Rightarrow> jsany" where
  "js_or a b = (if truthy_any a then a else b)"

text \<open>
  \<open>obj[k] = v\<close> on a plain object that the code builds: the own property \<open>k\<close> is set,
  a new one being added after the others. The name \<open>__proto__\<close> is the exception: it is
  an accessor inherited from \<open>Object.prototype\<close>, so the assignment replaces the
  prototype of the object (or does nothing) and adds no own property. The list keeps the
  order of insertion; JavaScript enumerates integer-like names before the others, which
  is not modelled, and the claims below are stated without regard to the order.
\<close>

definition set_property :: "string \<Rightarrow> 'a \<Rightarrow> (string \<times> 'a) list \<Rightarrow> (string \<times> 'a) list" where
  "set_property k v obj = (if k = ''__proto__'' then obj else AList.update k v obj)"

text \<open>\<open>typeof v === 'string' && v.length > 100\<close>\<close>

fun long_string :: "json \<Rightarrow> bool" where
  "long_string (JStr s) = (length s > 100)"
| "long_string v = False"

datatype js_error = TypeError


section \<open>The source and target data\<close>

record N8NNode =
  node_name :: string
  node_type :: string
  node_position :: "real \<times> real"
  node_parameters :: "(string \<times> json) list option"
  typeVersion :: real

text \<open>
  \<open>parameters\<close> is declared \<open>Record<string, any>\<close>, but the validator does not check
  it and the dialog passes parsed JSON on: \<open>None\<close> is a node without \<open>parameters\<close>,
  on which reading a property raises a \<open>TypeError\<close>. The unused optional field
  \<open>credentials\<close> is left out.
\<close>

record N8NConnection =
  conn_node :: string
  conn_type :: string
  conn_index :: int

text \<open>\<open>main\<close> may be absent: the code reads it as \<open>connectionData.main || []\<close>.\<close>

record N8NConnectionData =
  main :: "N8NConnection list list option"

record N8NWorkflow =
  workflow_name :: "string option"
  nodes :: "N8NNode list"
  connections :: "(string \<times> N8NConnectionData) list"

record SimSubBlock =
  sub_id :: string
  sub_type :: string
  sub_value :: jsany

record SimOutput =
  out_type :: string
  out_description :: string

record SimLayout =
  measuredWidth :: int
  measuredHeight :: int

record SimBlock =
  block_id :: string
  block_type :: string
  block_name :: string
  block_position :: "real \<times> real"
  enabled :: bool
  horizontalHandles :: bool
  advancedMode :: bool
  triggerMode :: bool
  height :: int
  subBlocks :: "(string \<times> SimSubBlock) list"
  outputs :: "(string \<times> SimOutput) list"
  block_data :: "(string \<times> json) list"
  layout :: SimLayout

record SimEdge =
  edge_id :: string
  source :: string
  target :: string
  sourceHandle :: string
  targetHandle :: string
  edge_type :: string
  edge_data :: "(string \<times> json) list"

record SimMetadata =
  meta_name :: string
  meta_description :: string
  meta_exportedAt :: string

record SimState =
  blocks :: "(string \<times> SimBlock) list"
  edges :: "SimEdge list"
  loops :: "(string \<times> json) list"
  parallels :: "(string \<times> json) list"
  metadata :: SimMetadata
  variables :: "json list"

record SimWorkflow =
  version :: string
  exportedAt :: string
  state :: SimState

record MigrationResult =
  success :: bool
  workflow :: "SimWorkflow option"
  error :: "string option"
  warnings :: "string list option"

definition DEFAULT_LAYOUT :: SimLayout where
  "DEFAULT_LAYOUT = \<lparr>measuredWidth = 250, measuredHeight = 172\<rparr>"


section \<open>The collaborators\<close>

text \<open>
  Modelled from the spec: the Block Registry's \<open>BlockDefinition\<close> type, which is imported
  from \<open>@/blocks\<close> and not part of the sources. A sub-block declaration has an id, a
  type and an optional default, which is a fixed value or a zero-argument function (here
  the value the function produces); an output declaration is a bare type string or an
  object with a type and an optional description.
\<close>

datatype default_value = Fixed json | Computed json

record SubBlockConfig =
  cfg_id :: string
  cfg_type :: string
  cfg_value :: "default_value option"

datatype OutputDef = OutputType string | OutputObject string "string option"

record BlockConfig =
  cfg_subBlocks :: "SubBlockConfig list option"
  cfg_outputs :: "(string \<times> OutputDef) list option"

text \<open>
  Everything the converter takes from outside is a field of the environment: the registry
  lookup \<open>getBlock\<close> and the existence check \<open>isValidBlockType\<close>, the identifiers that
  the successive calls of \<open>uuidv4()\<close> return, the strings that the successive calls of
  \<open>new Date().toISOString()\<close> return, \<open>JSON.stringify\<close>, and the message of a caught
  error. The identifiers are UUID strings, so none of them is the name \<open>__proto__\<close>.
  Writing to the console is not modelled.
\<close>

record env =
  getBlock :: "string \<Rightarrow> BlockConfig option"
  isValidBlockType :: "string \<Rightarrow> bool"
  uuid_nth :: "nat \<Rightarrow> string"
  date_nth :: "nat \<Rightarrow> string"
  JSON_stringify :: "json \<Rightarrow> string"
  error_message :: "js_error \<Rightarrow> string"


section \<open>Parameters to sub-blocks, and outputs\<close>

text \<open>
  The body of the loop over the declared slots: the \<open>if\<close>/\<open>else if\<close> chain that picks
  the slot's value, \<open>p\<close> reading a property of \<open>node.parameters\<close>. The variable
  \<open>value\<close> starts as \<open>null\<close>. The names of the alternate keys are not names of
  inherited members, so what \<open>JSON.stringify\<close> is applied to is a JSON value.
\<close>

definition stringify_any :: "env \<Rightarrow> jsany \<Rightarrow> jsany" where
  "stringify_any E v = (case v of Json c \<Rightarrow> Json (JStr (JSON_stringify E c)) | _ \<Rightarrow> Undefined)"

definition slot_value :: "env \<Rightarrow> (string \<times> json) list \<Rightarrow> string \<Rightarrow> SubBlockConfig \<Rightarrow> jsany" where
  "slot_value E params simType subBlockDef =
     (let subBlockId = cfg_id subBlockDef; p = read_property params in
      if p subBlockId \<noteq> Undefined then p subBlockId
      else if subBlockId = ''code'' then
        js_or (js_or (js_or (js_or (p ''jsCode'') (p ''functionCode'')) (p ''code''))
          (p ''script'')) (Json JNull)
      else if subBlockId = ''message'' \<and> truthy_any (js_or (p ''text'') (p ''body'')) then
        js_or (js_or (p ''text'') (p ''body'')) (p ''message'')
      else if subBlockId = ''to'' \<and> truthy_any (p ''sendTo'') then p ''sendTo''
      else if subBlockId = ''language'' \<and> simType = ''function'' then Json (JStr ''javascript'')
      else if subBlockId = ''condition'' \<and> truthy_any (p ''conditions'') then
        stringify_any E (p ''conditions'')
      else (case cfg_value subBlockDef of
              Some (Computed v) \<Rightarrow> Json v
            | Some (Fixed v) \<Rightarrow> Json v
            | None \<Rightarrow> Json JNull))"

definition mk_subBlock :: "string \<Rightarrow> string \<Rightarrow> jsany \<Rightarrow> SimSubBlock" where
  "mk_subBlock i t v = \<lparr>sub_id = i, sub_type = t, sub_value = v\<rparr>"

text \<open>
  The loop \<open>for (const subBlockDef of blockDef.subBlocks)\<close>. Each iteration reads
  \<open>node.parameters[subBlockId]\<close> first, which raises when the node has no parameters,
  and ends with \<open>subBlocks[subBlockId] = {...}\<close>.
\<close>

fun subBlocks_loop ::
  "env \<Rightarrow> N8NNode \<Rightarrow> string \<Rightarrow> SubBlockConfig list \<Rightarrow> (string \<times> SimSubBlock) list
     \<Rightarrow> js_error + (string \<times> SimSubBlock) list" where
  "subBlocks_loop E node simType [] acc = Inr acc"
| "subBlocks_loop E node simType (subBlockDef # rest) acc =
     (case node_parameters node of
        None \<Rightarrow> Inl TypeError
      | Some params \<Rightarrow>
          subBlocks_loop E node simType rest
            (set_property (cfg_id subBlockDef)
               (mk_subBlock (cfg_id subBlockDef) (cfg_type subBlockDef)
                  (slot_value E params simType subBlockDef)) acc))"

text \<open>The fallback \<open>Object.entries(node.parameters).forEach\<close>, whose body is
  \<open>subBlocks[key] = {...}\<close>.\<close>

fun generic_loop ::
  "(string \<times> json) list \<Rightarrow> (string \<times> SimSubBlock) list \<Rightarrow> (string \<times> SimSubBlock) list" where
  "generic_loop [] acc = acc"
| "generic_loop ((key, v) # rest) acc =
     generic_loop rest
       (set_property key
          (mk_subBlock key (if long_string v then ''long-input'' else ''short-input'') (Json v))
          acc)"

definition generic_subBlocks :: "N8NNode \<Rightarrow> js_error + (string \<times> SimSubBlock) list" where
  "generic_subBlocks node =
     (case node_parameters node of
        None \<Rightarrow> Inl TypeError
      | Some params \<Rightarrow> Inr (generic_loop params []))"

definition convertParametersToSubBlocks ::
  "env \<Rightarrow> N8NNode \<Rightarrow> string \<Rightarrow> js_error + (string \<times> SimSubBlock) list" where
  "convertParametersToSubBlocks E node simType =
     (case getBlock E simType of
        None \<Rightarrow> generic_subBlocks node
      | Some blockDef \<Rightarrow>
          (case cfg_subBlocks blockDef of
             None \<Rightarrow> generic_subBlocks node
           | Some defs \<Rightarrow> subBlocks_loop E node simType defs []))"

text \<open>\<open>outputDef.description || `${key} output`\<close>: an absent or empty description is falsy.\<close>

definition output_of :: "string \<Rightarrow> OutputDef \<Rightarrow> SimOutput" where
  "output_of key outputDef =
     (case outputDef of
        OutputType t \<Rightarrow> \<lparr>out_type = t, out_description = key @ '' output''\<rparr>
      | OutputObject t d \<Rightarrow>
          \<lparr>out_type = t,
           out_description =
             (case d of None \<Rightarrow> key @ '' output''
              | Some s \<Rightarrow> if s = [] then key @ '' output'' else s)\<rparr>)"

fun outputs_loop ::
  "(string \<times> OutputDef) list \<Rightarrow> (string \<times> SimOutput) list \<Rightarrow> (string \<times> SimOutput) list" where
  "outputs_loop [] acc = acc"
| "outputs_loop ((key, outputDef) # rest) acc =
     outputs_loop rest (set_property key (output_of key outputDef) acc)"

definition generateOutputsForBlockType :: "env \<Rightarrow> string \<Rightarrow> (string \<times> SimOutput) list" where
  "generateOutputsForBlockType E blockType =
     (case getBlock E blockType of
        None \<Rightarrow> [(''result'', \<lparr>out_type = ''any'', out_description = ''Output from block execution''\<rparr>)]
      | Some blockDef \<Rightarrow>
          (case cfg_outputs blockDef of
             None \<Rightarrow> [(''result'', \<lparr>out_type = ''any'', out_description = ''Output from block execution''\<rparr>)]
           | Some outs \<Rightarrow> outputs_loop outs []))"


section \<open>The converter\<close>

text \<open>
  The mutable locals of \<open>convertN8NToSim\<close>: the arrays \<open>warnings\<close> and \<open>edges\<close>, the
  object \<open>blocks\<close> (its properties in insertion order), the \<open>Map\<close> \<open>nodeIdMap\<close>, which
  the code only reads with \<open>get\<close> and writes with \<open>set\<close>, and the number of calls of
  \<open>uuidv4()\<close> made so far.
\<close>

record conv_state =
  st_warnings :: "string list"
  st_blocks :: "(string \<times> SimBlock) list"
  st_edges :: "SimEdge list"
  nodeIdMap :: "string \<rightharpoonup> string"
  uuid_calls :: nat

definition init_state :: conv_state where
  "init_state = \<lparr>st_warnings = [], st_blocks = [], st_edges = [], nodeIdMap = Map.empty,
                  uuid_calls = 0\<rparr>"

definition uuidv4 :: "env \<Rightarrow> conv_state \<Rightarrow> string \<times> conv_state" where
  "uuidv4 E st = (uuid_nth E (uuid_calls st), st\<lparr>uuid_calls := Suc (uuid_calls st)\<rparr>)"

definition push_warning :: "string \<Rightarrow> conv_state \<Rightarrow> conv_state" where
  "push_warning w st = st\<lparr>st_warnings := st_warnings st @ [w]\<rparr>"

text \<open>The double quote, which the warnings put around names.\<close>

definition dq :: string where
  "dq = [CHR 0x22]"

definition unavailable_warning :: "string \<Rightarrow> string \<Rightarrow> string \<Rightarrow> string" where
  "unavailable_warning simType name ntype =
     ''Block type '' @ dq @ simType @ dq @ '' not available in Sim. Node '' @ dq @ name @ dq @
     '' ('' @ ntype @ '') converted to function block.''"

definition source_warning :: "string \<Rightarrow> string" where
  "source_warning sourceName = ''Source node '' @ dq @ sourceName @ dq @ '' not found in node map''"

definition target_warning :: "string \<Rightarrow> string" where
  "target_warning targetName = ''Target node '' @ dq @ targetName @ dq @ '' not found in node map''"

text \<open>Step 1: the callback of \<open>n8nWorkflow.nodes.forEach((node, index) => ...)\<close>.\<close>

definition convert_node :: "env \<Rightarrow> N8NNode \<Rightarrow> nat \<Rightarrow> conv_state \<Rightarrow> js_error + conv_state" where
  "convert_node E node index st =
     (if node_type node = ''n8n-nodes-base.stickyNote'' then Inr st
      else
        (let (blockId, st1) = uuidv4 E st;
             st2 = st1\<lparr>nodeIdMap := (nodeIdMap st1)(node_name node \<mapsto> blockId)\<rparr>;
             (simType, defaultHeight) = getSimBlockType (node_type node);
             available = isValidBlockType E simType;
             st3 = (if \<not> available
                    then push_warning
                           (unavailable_warning simType (node_name node) (node_type node)) st2
                    else st2);
             simType = (if \<not> available then ''function'' else simType);
             defaultHeight = (if \<not> available then 143 else defaultHeight);
             trigger = isTriggerNode (node_type node) (index = 0)
         in case convertParametersToSubBlocks E node simType of
              Inl e \<Rightarrow> Inl e
            | Inr subs \<Rightarrow>
                (let outs = generateOutputsForBlockType E simType;
                     simBlock =
                       \<lparr>block_id = blockId,
                        block_type = simType,
                        block_name = node_name node,
                        block_position = node_position node,
                        enabled = True,
                        horizontalHandles = True,
                        advancedMode = False,
                        triggerMode = trigger,
                        height = defaultHeight,
                        subBlocks = subs,
                        outputs = outs,
                        block_data = [],
                        layout = \<lparr>measuredWidth = measuredWidth DEFAULT_LAYOUT,
                                  measuredHeight = defaultHeight\<rparr>\<rparr>
                 in Inr (st3\<lparr>st_blocks := AList.update blockId simBlock (st_blocks st3)\<rparr>))))"

fun convert_nodes :: "env \<Rightarrow> N8NNode list \<Rightarrow> nat \<Rightarrow> conv_state \<Rightarrow> js_error + conv_state" where
  "convert_nodes E [] index st = Inr st"
| "convert_nodes E (node # rest) index st =
     (case convert_node E node index st of
        Inl e \<Rightarrow> Inl e
      | Inr st' \<Rightarrow> convert_nodes E rest (Suc index) st')"

text \<open>
  Step 2. \<open>!id\<close> holds for an identifier that is \<open>undefined\<close> or the empty string.
  Reading \<open>sourceBlock.type\<close> raises when \<open>blocks[sourceId]\<close> is \<open>undefined\<close>.
\<close>

definition falsy_id :: "string option \<Rightarrow> bool" where
  "falsy_id i = (case i of None \<Rightarrow> True | Some s \<Rightarrow> s = [])"

definition convert_connection ::
  "env \<Rightarrow> string \<Rightarrow> nat \<Rightarrow> N8NConnection \<Rightarrow> conv_state \<Rightarrow> js_error + conv_state" where
  "convert_connection E sourceId outputIndex connection st =
     (case nodeIdMap st (conn_node connection) of
        None \<Rightarrow> Inr (push_warning (target_warning (conn_node connection)) st)
      | Some targetId \<Rightarrow>
          if falsy_id (Some targetId)
          then Inr (push_warning (target_warning (conn_node connection)) st)
          else
            (case map_of (st_blocks st) sourceId of
               None \<Rightarrow> Inl TypeError
             | Some sourceBlock \<Rightarrow>
                 (let sourceHandle =
                        (if block_type sourceBlock = ''condition''
                         then (if outputIndex = 0 then ''condition-cond-true''
                               else ''condition-cond-else'')
                         else ''source'');
                      (edgeId, st1) = uuidv4 E st;
                      edge = \<lparr>edge_id = edgeId, source = sourceId, target = targetId,
                              sourceHandle = sourceHandle, targetHandle = ''target'',
                              edge_type = ''default'', edge_data = []\<rparr>
                  in Inr (st1\<lparr>st_edges := st_edges st1 @ [edge]\<rparr>))))"

text \<open>\<open>connectionGroup.forEach((connection) => ...)\<close>\<close>

fun convert_group ::
  "env \<Rightarrow> string \<Rightarrow> nat \<Rightarrow> N8NConnection list \<Rightarrow> conv_state \<Rightarrow> js_error + conv_state" where
  "convert_group E sourceId outputIndex [] st = Inr st"
| "convert_group E sourceId outputIndex (connection # rest) st =
     (case convert_connection E sourceId outputIndex connection st of
        Inl e \<Rightarrow> Inl e
      | Inr st' \<Rightarrow> convert_group E sourceId outputIndex rest st')"

text \<open>\<open>mainConnections.forEach((connectionGroup, outputIndex) => ...)\<close>\<close>

fun convert_main ::
  "env \<Rightarrow> string \<Rightarrow> nat \<Rightarrow> N8NConnection list list \<Rightarrow> conv_state \<Rightarrow> js_error + conv_state" where
  "convert_main E sourceId outputIndex [] st = Inr st"
| "convert_main E sourceId outputIndex (connectionGroup # rest) st =
     (case convert_group E sourceId outputIndex connectionGroup st of
        Inl e \<Rightarrow> Inl e
      | Inr st' \<Rightarrow> convert_main E sourceId (Suc outputIndex) rest st')"

text \<open>The body of \<open>for (const [sourceName, connectionData] of Object.entries(...))\<close>.\<close>

definition convert_entry ::
  "env \<Rightarrow> string \<Rightarrow> N8NConnectionData \<Rightarrow> conv_state \<Rightarrow> js_error + conv_state" where
  "convert_entry E sourceName connectionData st =
     (case nodeIdMap st sourceName of
        None \<Rightarrow> Inr (push_warning (source_warning sourceName) st)
      | Some sourceId \<Rightarrow>
          if falsy_id (Some sourceId) then Inr (push_warning (source_warning sourceName) st)
          else
            (let mainConnections = (case main connectionData of None \<Rightarrow> [] | Some m \<Rightarrow> m)
             in convert_main E sourceId 0 mainConnections st))"

fun convert_connections ::
  "env \<Rightarrow> (string \<times> N8NConnectionData) list \<Rightarrow> conv_state \<Rightarrow> js_error + conv_state" where
  "convert_connections E [] st = Inr st"
| "convert_connections E ((sourceName, connectionData) # rest) st =
     (case convert_entry E sourceName connectionData st of
        Inl e \<Rightarrow> Inl e
      | Inr st' \<Rightarrow> convert_connections E rest st')"

text \<open>The body of the \<open>try\<close> up to Step 3, and the whole function with its \<open>catch\<close>.\<close>

definition run_steps :: "env \<Rightarrow> N8NWorkflow \<Rightarrow> js_error + conv_state" where
  "run_steps E w =
     (case convert_nodes E (nodes w) 0 init_state of
        Inl e \<Rightarrow> Inl e
      | Inr st \<Rightarrow> convert_connections E (connections w) st)"

definition build_workflow :: "env \<Rightarrow> N8NWorkflow \<Rightarrow> conv_state \<Rightarrow> SimWorkflow" where
  "build_workflow E w st =
     \<lparr>version = ''1.0'',
      exportedAt = date_nth E 0,
      state =
        \<lparr>blocks = st_blocks st,
         edges = st_edges st,
         loops = [],
         parallels = [],
         metadata =
           \<lparr>meta_name =
              (case workflow_name w of
                 None \<Rightarrow> ''Migrated from n8n''
               | Some n \<Rightarrow> if n = [] then ''Migrated from n8n'' else n),
            meta_description = ''Workflow migrated from n8n automation platform'',
            meta_exportedAt = date_nth E 1\<rparr>,
         variables = []\<rparr>\<rparr>"

definition convertN8NToSim :: "env \<Rightarrow> N8NWorkflow \<Rightarrow> MigrationResult" where
  "convertN8NToSim E w =
     (case run_steps E w of
        Inr st \<Rightarrow>
          \<lparr>success = True,
           workflow = Some (build_workflow E w st),
           error = None,
           warnings = (if length (st_warnings st) > 0 then Some (st_warnings st) else None)\<rparr>
      | Inl e \<Rightarrow>
          \<lparr>success = False, workflow = None, error = Some (error_message E e),
           warnings = None\<rparr>)"


section \<open>The structural validator\<close>

text \<open>
  Reading a property of a value: \<open>null\<close> and \<open>undefined\<close> raise a \<open>TypeError\<close>; an object
  gives its own property or \<open>undefined\<close>; an array and a string have \<open>length\<close>, and
  none of the other names the validator reads (\<open>nodes\<close>, \<open>connections\<close>, \<open>name\<close>,
  \<open>type\<close>, \<open>position\<close>); a number or a boolean has none of them.
\<close>

fun get_prop :: "jsval \<Rightarrow> string \<Rightarrow> js_error + jsval" where
  "get_prop None k = Inl TypeError"
| "get_prop (Some JNull) k = Inl TypeError"
| "get_prop (Some (JObj ps)) k = Inr (map_of ps k)"
| "get_prop (Some (JArr xs)) k =
     Inr (if k = ''length'' then Some (JNum (real (length xs))) else None)"
| "get_prop (Some (JStr s)) k =
     Inr (if k = ''length'' then Some (JNum (real (length s))) else None)"
| "get_prop (Some (JBool b)) k = Inr None"
| "get_prop (Some (JNum n)) k = Inr None"

text \<open>\<open>typeof v === 'object'\<close>, \<open>typeof v === 'string'\<close> and \<open>Array.isArray(v)\<close>.\<close>

fun typeof_object :: "jsval \<Rightarrow> bool" where
  "typeof_object (Some JNull) = True"
| "typeof_object (Some (JArr xs)) = True"
| "typeof_object (Some (JObj ps)) = True"
| "typeof_object v = False"

fun typeof_string :: "jsval \<Rightarrow> bool" where
  "typeof_string (Some (JStr s)) = True"
| "typeof_string v = False"

fun isArray :: "jsval \<Rightarrow> bool" where
  "isArray (Some (JArr xs)) = True"
| "isArray v = False"

text \<open>The elements of an array, and a string put into a template; both are used on
  values already known to be an array and a string.\<close>

fun elements :: "jsval \<Rightarrow> json list" where
  "elements (Some (JArr xs)) = xs"
| "elements v = []"

fun template :: "jsval \<Rightarrow> string" where
  "template (Some (JStr s)) = s"
| "template v = []"

record verdict =
  valid :: bool
  verdict_error :: "string option"

definition invalid :: "string \<Rightarrow> verdict" where
  "invalid msg = \<lparr>valid = False, verdict_error = Some msg\<rparr>"

definition name_error :: string where
  "name_error = ''Invalid node: missing or invalid '' @ dq @ ''name'' @ dq @ '' field''"

definition type_error :: "string \<Rightarrow> string" where
  "type_error n =
     ''Invalid node '' @ dq @ n @ dq @ '': missing or invalid '' @ dq @ ''type'' @ dq @ '' field''"

definition position_error :: "string \<Rightarrow> string" where
  "position_error n =
     ''Invalid node '' @ dq @ n @ dq @ '': missing or invalid '' @ dq @ ''position'' @ dq @ '' field''"

text \<open>The three checks on one node: \<open>None\<close> when the node passes them.\<close>

definition validate_node :: "json \<Rightarrow> js_error + verdict option" where
  "validate_node node =
     (case get_prop (Some node) ''name'' of
        Inl e \<Rightarrow> Inl e
      | Inr name \<Rightarrow>
          if \<not> truthy name \<or> \<not> typeof_string name then Inr (Some (invalid name_error))
          else
            (case get_prop (Some node) ''type'' of
               Inl e \<Rightarrow> Inl e
             | Inr ntype \<Rightarrow>
                 if \<not> truthy ntype \<or> \<not> typeof_string ntype
                 then Inr (Some (invalid (type_error (template name))))
                 else
                   (case get_prop (Some node) ''position'' of
                      Inl e \<Rightarrow> Inl e
                    | Inr position \<Rightarrow>
                        if \<not> truthy position \<or> \<not> isArray position \<or>
                           length (elements position) \<noteq> 2
                        then Inr (Some (invalid (position_error (template name))))
                        else Inr None)))"

fun validate_nodes :: "json list \<Rightarrow> js_error + verdict" where
  "validate_nodes [] = Inr \<lparr>valid = True, verdict_error = None\<rparr>"
| "validate_nodes (node # rest) =
     (case validate_node node of
        Inl e \<Rightarrow> Inl e
      | Inr (Some v) \<Rightarrow> Inr v
      | Inr None \<Rightarrow> validate_nodes rest)"

definition validateN8NWorkflow :: "jsval \<Rightarrow> js_error + verdict" where
  "validateN8NWorkflow data =
     (if \<not> truthy data \<or> \<not> typeof_object data
      then Inr (invalid ''Invalid workflow data: must be an object'')
      else
        (case get_prop data ''nodes'' of
           Inl e \<Rightarrow> Inl e
         | Inr ns \<Rightarrow>
             if \<not> truthy ns \<or> \<not> isArray ns
             then Inr (invalid (''Invalid workflow: missing or invalid '' @ dq @ ''nodes'' @ dq @
                                '' array''))
             else if length (elements ns) = 0
             then Inr (invalid ''Invalid workflow: must contain at least one node'')
             else
               (case get_prop data ''connections'' of
                  Inl e \<Rightarrow> Inl e
                | Inr cs \<Rightarrow>
                    if \<not> truthy cs \<or> \<not> typeof_object cs
                    then Inr (invalid (''Invalid workflow: missing or invalid '' @ dq @
                                       ''connections'' @ dq @ '' object''))
                    else validate_nodes (elements ns))))"


section \<open>Notions used to state the properties\<close>

text \<open>The nodes that Step 1 keeps, and the type and height that a kept node's block gets:
  the resolver's answer when the existence check accepts it, the fallback otherwise.\<close>

definition sticky :: "N8NNode \<Rightarrow> bool" where
  "sticky node = (node_type node = ''n8n-nodes-base.stickyNote'')"

definition retained :: "N8NNode list \<Rightarrow> N8NNode list" where
  "retained ns = filter (\<lambda>n. \<not> sticky n) ns"

definition unavailable :: "env \<Rightarrow> N8NNode \<Rightarrow> bool" where
  "unavailable E node = (\<not> isValidBlockType E (fst (getSimBlockType (node_type node))))"

definition final_type :: "env \<Rightarrow> N8NNode \<Rightarrow> string \<times> int" where
  "final_type E node =
     (if unavailable E node then (''function'', 143) else getSimBlockType (node_type node))"

text \<open>The warnings that Step 1 issues for one node.\<close>

definition node_warnings :: "env \<Rightarrow> N8NNode \<Rightarrow> string list" where
  "node_warnings E node =
     (if sticky node then []
      else if unavailable E node
      then [unavailable_warning (fst (getSimBlockType (node_type node))) (node_name node)
              (node_type node)]
      else [])"

text \<open>
  A name resolves through the name-to-id map when the map binds it to an identifier that
  is not the empty string.
\<close>

definition resolve :: "(string \<rightharpoonup> string) \<Rightarrow> string \<Rightarrow> string option" where
  "resolve M n = (case M n of None \<Rightarrow> None | Some i \<Rightarrow> if i = [] then None else Some i)"

text \<open>
  What the specification says becomes of the connection table, entry by entry and in
  order: a group whose source name does not resolve is one warning; in a group whose
  source resolves, each target entry is a link from the source's block to the target's
  block, on the branch the entry stands in, when the target name resolves, and one
  warning when it does not.
\<close>

datatype outcome = Linked string nat string | Warned string

definition target_outcome :: "(string \<rightharpoonup> string) \<Rightarrow> string \<Rightarrow> nat \<Rightarrow> N8NConnection \<Rightarrow> outcome" where
  "target_outcome M sid branch c =
     (case resolve M (conn_node c) of
        None \<Rightarrow> Warned (target_warning (conn_node c))
      | Some tid \<Rightarrow> Linked sid branch tid)"

fun branch_outcomes ::
  "(string \<rightharpoonup> string) \<Rightarrow> string \<Rightarrow> nat \<Rightarrow> N8NConnection list list \<Rightarrow> outcome list" where
  "branch_outcomes M sid branch [] = []"
| "branch_outcomes M sid branch (g # gs) =
     map (target_outcome M sid branch) g @ branch_outcomes M sid (Suc branch) gs"

definition main_or_empty :: "N8NConnectionData \<Rightarrow> N8NConnection list list" where
  "main_or_empty cd = (case main cd of None \<Rightarrow> [] | Some m \<Rightarrow> m)"

definition group_outcomes :: "(string \<rightharpoonup> string) \<Rightarrow> string \<times> N8NConnectionData \<Rightarrow> outcome list" where
  "group_outcomes M entry =
     (case resolve M (fst entry) of
        None \<Rightarrow> [Warned (source_warning (fst entry))]
      | Some sid \<Rightarrow> branch_outcomes M sid 0 (main_or_empty (snd entry)))"

definition outcomes ::
  "(string \<rightharpoonup> string) \<Rightarrow> (string \<times> N8NConnectionData) list \<Rightarrow> outcome list" where
  "outcomes M conns = concat (map (group_outcomes M) conns)"

fun links :: "outcome list \<Rightarrow> (string \<times> nat \<times> string) list" where
  "links [] = []"
| "links (Linked sid branch tid # os) = (sid, branch, tid) # links os"
| "links (Warned w # os) = links os"

fun warns :: "outcome list \<Rightarrow> string list" where
  "warns [] = []"
| "warns (Linked sid branch tid # os) = warns os"
| "warns (Warned w # os) = w # warns os"

text \<open>The name-to-id map that Step 1 leaves, when the first kept node takes the
  \<open>k\<close>-th identifier: each kept node binds its name to the next identifier.\<close>

fun id_map :: "env \<Rightarrow> N8NNode list \<Rightarrow> nat \<Rightarrow> (string \<rightharpoonup> string) \<Rightarrow> (string \<rightharpoonup> string)" where
  "id_map E [] k M = M"
| "id_map E (n # ns) k M =
     (if sticky n then id_map E ns k M
      else id_map E ns (Suc k) (M(node_name n \<mapsto> uuid_nth E k)))"

text \<open>The identifier generator never repeats itself and never returns the empty string.\<close>

definition fresh_ids :: "env \<Rightarrow> bool" where
  "fresh_ids E = (inj (uuid_nth E) \<and> (\<forall>k. uuid_nth E k \<noteq> []))"


text \<open>The block that a kept node becomes, given its identifier and its sub-blocks.\<close>

definition block_for ::
  "env \<Rightarrow> N8NNode \<Rightarrow> nat \<Rightarrow> string \<Rightarrow> (string \<times> SimSubBlock) list \<Rightarrow> SimBlock" where
  "block_for E node index blockId subs =
     \<lparr>block_id = blockId,
      block_type = fst (final_type E node),
      block_name = node_name node,
      block_position = node_position node,
      enabled = True,
      horizontalHandles = True,
      advancedMode = False,
      triggerMode = isTriggerNode (node_type node) (index = 0),
      height = snd (final_type E node),
      subBlocks = subs,
      outputs = generateOutputsForBlockType E (fst (final_type E node)),
      block_data = [],
      layout = \<lparr>measuredWidth = 250, measuredHeight = snd (final_type E node)\<rparr>\<rparr>"

text \<open>The edge that a link becomes, given its identifier and the blocks built in Step 1.\<close>

definition handle_for :: "(string \<times> SimBlock) list \<Rightarrow> string \<Rightarrow> nat \<Rightarrow> string" where
  "handle_for B sid branch =
     (case map_of B sid of
        None \<Rightarrow> ''source''
      | Some b \<Rightarrow>
          if block_type b = ''condition''
          then (if branch = 0 then ''condition-cond-true'' else ''condition-cond-else'')
          else ''source'')"

definition edge_for :: "(string \<times> SimBlock) list \<Rightarrow> string \<Rightarrow> string \<times> nat \<times> string \<Rightarrow> SimEdge" where
  "edge_for B eid l =
     \<lparr>edge_id = eid, source = fst l, target = snd (snd l),
      sourceHandle = handle_for B (fst l) (fst (snd l)), targetHandle = ''target'',
      edge_type = ''default'', edge_data = []\<rparr>"

fun edges_for ::
  "env \<Rightarrow> (string \<times> SimBlock) list \<Rightarrow> nat \<Rightarrow> (string \<times> nat \<times> string) list \<Rightarrow> SimEdge list" where
  "edges_for E B k [] = []"
| "edges_for E B k (l # ls) = edge_for B (uuid_nth E k) l # edges_for E B (Suc k) ls"

text \<open>Every identifier that the name-to-id map can resolve to is a key of \<open>blocks\<close>.\<close>

definition closed :: "conv_state \<Rightarrow> bool" where
  "closed st = (\<forall>n i. resolve (nodeIdMap st) n = Some i \<longrightarrow> i \<in> fst ` set (st_blocks st))"


text \<open>The state after a list of outcomes: each warning is pushed, each link becomes an
  edge with the next identifier.\<close>

definition after :: "env \<Rightarrow> conv_state \<Rightarrow> outcome list \<Rightarrow> conv_state" where
  "after E st os =
     st\<lparr>st_warnings := st_warnings st @ warns os,
        st_edges := st_edges st @ edges_for E (st_blocks st) (uuid_calls st) (links os),
        uuid_calls := uuid_calls st + length (links os)\<rparr>"


text \<open>The warnings of a result: the empty list when the field is absent.\<close>

definition warning_list :: "MigrationResult \<Rightarrow> string list" where
  "warning_list r = (case warnings r of None \<Rightarrow> [] | Some ws \<Rightarrow> ws)"


section \<open>A sample conversion\<close>

text \<open>
  An environment with an empty registry in which only the type \<open>mystery\<close> does not
  exist, and a workflow with a conditional node, a sticky note and two more nodes, wired
  with a connection to the sticky note and a group whose source names no node.
\<close>

definition demo_env :: env where
  "demo_env =
     \<lparr>getBlock = (\<lambda>t. None),
      isValidBlockType = (\<lambda>t. t \<noteq> ''mystery''),
      uuid_nth = (\<lambda>k. replicate (Suc k) CHR ''u''),
      date_nth = (\<lambda>k. ''2024-01-01T00:00:00.000Z''),
      JSON_stringify = (\<lambda>j. ''{}''),
      error_message = (\<lambda>e. ''TypeError'')\<rparr>"

definition demo_node :: "string \<Rightarrow> string \<Rightarrow> N8NNode" where
  "demo_node n t =
     \<lparr>node_name = n, node_type = t, node_position = (0, 0), node_parameters = Some [],
      typeVersion = 1\<rparr>"

definition demo_conn :: "string \<Rightarrow> N8NConnection" where
  "demo_conn n = \<lparr>conn_node = n, conn_type = ''main'', conn_index = 0\<rparr>"

definition demo_workflow :: N8NWorkflow where
  "demo_workflow =
     \<lparr>workflow_name = Some ''demo'',
      nodes = [demo_node ''If'' ''n8n-nodes-base.if'',
               demo_node ''Note'' ''n8n-nodes-base.stickyNote'',
               demo_node ''A'' ''n8n-nodes-base.set'',
               demo_node ''B'' ''pkg.mystery''],
      connections =
        [(''If'', \<lparr>main = Some [[demo_conn ''A''], [demo_conn ''B'', demo_conn ''Note'']]\<rparr>),
         (''Ghost'', \<lparr>main = Some [[demo_conn ''A'']]\<rparr>),
         (''A'', \<lparr>main = Some [[demo_conn ''B'']]\<rparr>)]\<rparr>"


text \<open>A workflow in which two kept nodes share a name.\<close>

definition dup_workflow :: N8NWorkflow where
  "dup_workflow =
     \<lparr>workflow_name = None,
      nodes = [demo_node ''Dup'' ''n8n-nodes-base.set'', demo_node ''Dup'' ''n8n-nodes-base.if'',
               demo_node ''End'' ''n8n-nodes-base.set''],
      connections = [(''Dup'', \<lparr>main = Some [[demo_conn ''End'']]\<rparr>),
                     (''End'', \<lparr>main = Some [[demo_conn ''Dup'']]\<rparr>)]\<rparr>"


section \<open>The priority chain of slot values\<close>

text \<open>
  A strategy either passes (\<open>None\<close>) or yields a value; the chain takes the first strategy
  that yields one, and \<open>null\<close> when all pass. The parameters are the own properties of
  \<open>node.parameters\<close>; the exact key yields its parameter when there is one, an alternate
  key when its parameter is truthy.
\<close>

definition parameter :: "(string \<times> json) list \<Rightarrow> string \<Rightarrow> jsany" where
  "parameter params k = (case map_of params k of None \<Rightarrow> Undefined | Some v \<Rightarrow> Json v)"

fun first_truthy :: "jsany list \<Rightarrow> jsany option" where
  "first_truthy [] = None"
| "first_truthy (v # vs) = (if truthy_any v then Some v else first_truthy vs)"

fun first_match :: "jsany option list \<Rightarrow> jsany" where
  "first_match [] = Json JNull"
| "first_match (None # rs) = first_match rs"
| "first_match (Some v # rs) = v"

definition exact_key :: "(string \<times> json) list \<Rightarrow> SubBlockConfig \<Rightarrow> jsany option" where
  "exact_key params d =
     (case map_of params (cfg_id d) of None \<Rightarrow> None | Some v \<Rightarrow> Some (Json v))"

definition message_alternates :: "(string \<times> json) list \<Rightarrow> SubBlockConfig \<Rightarrow> jsany option" where
  "message_alternates params d =
     (if cfg_id d = ''message''
      then first_truthy [parameter params ''text'', parameter params ''body'']
      else None)"

definition to_alternate :: "(string \<times> json) list \<Rightarrow> SubBlockConfig \<Rightarrow> jsany option" where
  "to_alternate params d =
     (if cfg_id d = ''to'' then first_truthy [parameter params ''sendTo''] else None)"

definition language_default :: "string \<Rightarrow> SubBlockConfig \<Rightarrow> jsany option" where
  "language_default simType d =
     (if cfg_id d = ''language'' \<and> simType = ''function'' then Some (Json (JStr ''javascript''))
      else None)"

definition condition_serialized :: "env \<Rightarrow> (string \<times> json) list \<Rightarrow> SubBlockConfig \<Rightarrow> jsany option" where
  "condition_serialized E params d =
     (if cfg_id d = ''condition'' \<and> truthy_any (parameter params ''conditions'')
      then Some (stringify_any E (parameter params ''conditions''))
      else None)"

definition declared_default :: "SubBlockConfig \<Rightarrow> jsany option" where
  "declared_default d =
     (case cfg_value d of
        None \<Rightarrow> None
      | Some (Fixed v) \<Rightarrow> Some (Json v)
      | Some (Computed v) \<Rightarrow> Some (Json v))"

text \<open>
  The chain as the specification words it: the alternate keys of slot \<open>code\<close> are one
  strategy among the others, and pass when none of them is truthy.
\<close>

definition code_alternates_spec :: "(string \<times> json) list \<Rightarrow> SubBlockConfig \<Rightarrow> jsany option" where
  "code_alternates_spec params d =
     (if cfg_id d = ''code''
      then first_truthy [parameter params ''jsCode'', parameter params ''functionCode'',
                         parameter params ''code'', parameter params ''script'']
      else None)"

definition slot_value_spec :: "env \<Rightarrow> (string \<times> json) list \<Rightarrow> string \<Rightarrow> SubBlockConfig \<Rightarrow> jsany" where
  "slot_value_spec E params simType d =
     first_match
       [exact_key params d,
        code_alternates_spec params d,
        message_alternates params d,
        to_alternate params d,
        language_default simType d,
        condition_serialized E params d,
        declared_default d]"

text \<open>
  The two cases in which the code leaves this chain: a slot \<open>code\<close> that has a declared
  default and neither the parameter \<open>code\<close> nor a truthy alternate key, for which the code
  stops at \<open>null\<close>; and a slot whose id is not a parameter but the name of a member
  inherited from \<open>Object.prototype\<close>, for which the code takes that member.
\<close>

definition code_default_skipped :: "(string \<times> json) list \<Rightarrow> SubBlockConfig \<Rightarrow> bool" where
  "code_default_skipped params d =
     (cfg_id d = ''code'' \<and> map_of params ''code'' = None \<and>
      first_truthy [parameter params ''jsCode'', parameter params ''functionCode'',
                    parameter params ''script''] = None \<and>
      cfg_value d \<noteq> None)"

definition inherited_id :: "(string \<times> json) list \<Rightarrow> SubBlockConfig \<Rightarrow> bool" where
  "inherited_id params d = (map_of params (cfg_id d) = None \<and> cfg_id d \<in> set prototype_names)"

text \<open>The last declaration of a slot id in a list of declarations, if there is one.\<close>

fun last_declared :: "SubBlockConfig list \<Rightarrow> string \<Rightarrow> SubBlockConfig option" where
  "last_declared [] k = None"
| "last_declared (d # ds) k =
     (case last_declared ds k of
        Some x \<Rightarrow> Some x
      | None \<Rightarrow> if cfg_id d = k then Some d else None)"

text \<open>
  A registry that declares slots for two types: \<open>function\<close>, with distinct slot ids, and
  \<open>wait\<close>, which declares the slot \<open>code\<close> twice, with two types. And nodes with
  parameters, one of them with a parameter named \<open>__proto__\<close>.
\<close>

definition slot :: "string \<Rightarrow> string \<Rightarrow> default_value option \<Rightarrow> SubBlockConfig" where
  "slot i t v = \<lparr>cfg_id = i, cfg_type = t, cfg_value = v\<rparr>"

definition function_slots :: "SubBlockConfig list" where
  "function_slots =
     [slot ''code'' ''code'' None,
      slot ''language'' ''dropdown'' (Some (Fixed (JStr ''python''))),
      slot ''timeout'' ''short-input'' (Some (Computed (JNum 30))),
      slot ''notes'' ''long-input'' None]"

definition wait_slots :: "SubBlockConfig list" where
  "wait_slots =
     [slot ''code'' ''code'' (Some (Fixed (JStr ''sleep''))),
      slot ''code'' ''long-input'' (Some (Fixed (JStr ''sleep'')))]"

definition registry_env :: env where
  "registry_env =
     demo_env\<lparr>getBlock :=
       (\<lambda>t. if t = ''function'' then Some \<lparr>cfg_subBlocks = Some function_slots, cfg_outputs = None\<rparr>
            else if t = ''wait'' then Some \<lparr>cfg_subBlocks = Some wait_slots, cfg_outputs = None\<rparr>
            else None)\<rparr>"

definition param_node :: "string \<Rightarrow> string \<Rightarrow> (string \<times> json) list \<Rightarrow> N8NNode" where
  "param_node n t ps = (demo_node n t)\<lparr>node_parameters := Some ps\<rparr>"

definition code_node :: N8NNode where
  "code_node = param_node ''Code'' ''n8n-nodes-base.code''
                 [(''jsCode'', JStr ''return 1''), (''timeout'', JNum 5)]"

definition http_node :: N8NNode where
  "http_node = param_node ''Fetch'' ''n8n-nodes-base.httpRequest''
                 [(''url'', JStr ''https://example.org''),
                  (''body'', JStr (replicate 101 CHR ''a'')),
                  (''retries'', JNum 3)]"

definition proto_node :: N8NNode where
  "proto_node = param_node ''Fetch'' ''n8n-nodes-base.httpRequest''
                  [(''url'', JStr ''https://example.org''),
                   (''__proto__'', JStr ''x''),
                   (''retries'', JNum 3)]"

definition param_workflow :: N8NWorkflow where
  "param_workflow =
     \<lparr>workflow_name = None, nodes = [code_node, http_node], connections = []\<rparr>"

definition proto_workflow :: N8NWorkflow where
  "proto_workflow = \<lparr>workflow_name = None, nodes = [proto_node], connections = []\<rparr>"


text \<open>A node that passes the validator's three checks: an object whose \<open>name\<close> and
  \<open>type\<close> are non-empty strings and whose \<open>position\<close> is an array of two elements.\<close>

fun well_formed_node :: "json \<Rightarrow> bool" where
  "well_formed_node (JObj ps) =
     (case (map_of ps ''name'', map_of ps ''type'', map_of ps ''position'') of
        (Some (JStr n), Some (JStr t), Some (JArr xs)) \<Rightarrow> n \<noteq> [] \<and> t \<noteq> [] \<and> length xs = 2
      | _ \<Rightarrow> False)"
| "well_formed_node v = False"


section \<open>Facts about the string functions\<close>

lemmas str_defs = upperAZ_def lowerAZ_def isUpperAZ_def toLowerCase_char_def toLowerCase_def
  js_split_def replace_upper_def endsWith_def

lemma split_from_nonempty: "split_from sep cur s \<noteq> []"
  by (induction s arbitrary: cur) auto

lemma length_split_from: "length (split_from sep cur s) = Suc (count_list s sep)"
  by (induction s arbitrary: cur) auto

lemma length_js_split_gt1: "length (js_split sep s) > 1 \<longleftrightarrow> sep \<in> set s"
  by (simp add: js_split_def length_split_from count_list_0_iff zero_less_iff_neq_zero)

lemma last_split_from:
  "last (split_from sep cur s) =
     (if sep \<in> set s then rev (takeWhile (\<lambda>c. c \<noteq> sep) (rev s)) else cur @ s)"
proof (induction s arbitrary: cur)
  case Nil
  show ?case by simp
next
  case (Cons c cs)
  show ?case
  proof (cases "c = sep")
    case True
    have "last (split_from sep cur (c # cs)) = last (split_from sep [] cs)"
      using True by (simp add: split_from_nonempty)
    also have "\<dots> = (if sep \<in> set cs then rev (takeWhile (\<lambda>c. c \<noteq> sep) (rev cs)) else cs)"
      by (simp add: Cons.IH)
    also have "\<dots> = rev (takeWhile (\<lambda>c. c \<noteq> sep) (rev (c # cs)))"
      using True by (auto simp: takeWhile_append)
    finally show ?thesis using True by simp
  next
    case False
    then show ?thesis by (auto simp: Cons.IH takeWhile_append)
  qed
qed

lemma after_last_sep_decomp:
  assumes "sep \<in> set s"
  shows "\<exists>pre. s = pre @ [sep] @ rev (takeWhile (\<lambda>c. c \<noteq> sep) (rev s))"
proof -
  let ?P = "\<lambda>c. c \<noteq> sep"
  have "dropWhile ?P (rev s) \<noteq> []"
    using assms by (auto simp: dropWhile_eq_Nil_conv)
  moreover have "hd (dropWhile ?P (rev s)) = sep"
    using calculation hd_dropWhile [of ?P "rev s"] by auto
  ultimately obtain tl' where d: "dropWhile ?P (rev s) = sep # tl'"
    by (cases "dropWhile ?P (rev s)") auto
  have "rev s = takeWhile ?P (rev s) @ dropWhile ?P (rev s)" by simp
  then have "rev s = takeWhile ?P (rev s) @ sep # tl'" using d by simp
  then have "rev (rev s) = rev (takeWhile ?P (rev s) @ sep # tl')" by simp
  then have "s = rev tl' @ [sep] @ rev (takeWhile ?P (rev s))" by simp
  then show ?thesis by blast
qed

lemma after_last_sep_free: "sep \<notin> set (rev (takeWhile (\<lambda>c. c \<noteq> sep) (rev s)))"
  using set_takeWhileD [of sep "\<lambda>c. c \<noteq> sep" "rev s"] by auto

lemma toLowerCase_replace_upper: "toLowerCase (replace_upper s) = snake_every s"
proof -
  have u: "toLowerCase_char CHR ''_'' = CHR ''_''"
    by (simp add: toLowerCase_char_def upperAZ_def lowerAZ_def)
  show ?thesis
    by (induction s) (simp_all add: toLowerCase_def replace_upper_def snake_every_def u)
qed

lemma snake_every_internal:
  "(\<forall>c cs. s = c # cs \<longrightarrow> \<not> isUpperAZ c) \<Longrightarrow> snake_every s = snake_internal_spec s"
  by (cases s) (simp_all add: snake_every_def snake_internal_spec_def)

lemma endsWith_iff: "endsWith s suf \<longleftrightarrow> (\<exists>pre. s = pre @ suf)"
proof
  assume "endsWith s suf"
  then have "s = take (length s - length suf) s @ suf"
    unfolding endsWith_def by (metis append_take_drop_id)
  then show "\<exists>pre. s = pre @ suf" by blast
next
  assume "\<exists>pre. s = pre @ suf"
  then show "endsWith s suf" by (auto simp: endsWith_def)
qed


section \<open>The type resolver\<close>

text \<open>
  The resolver, case by case. For every source type \<open>t\<close>: if \<open>t\<close> occurs as
  \<open>n8nType\<close> in the table, the result is the target type and height of the first entry
  with that \<open>n8nType\<close>; otherwise, if \<open>t\<close> contains a dot, \<open>t\<close> is \<open>pre.seg\<close> with no
  dot in \<open>seg\<close> and the result is \<open>seg\<close> with an underscore before every upper-case
  letter, all lowercased, at height 230, which is the specification's snake-case form
  whenever \<open>seg\<close> does not start with an upper-case letter; otherwise the result is
  \<open>function\<close> at height 143.
\<close>

lemma getSimBlockType_resolution:
  "(t \<in> n8nType ` set BLOCK_TYPE_MAPPINGS \<longrightarrow>
      (\<exists>i < length BLOCK_TYPE_MAPPINGS.
          n8nType (BLOCK_TYPE_MAPPINGS ! i) = t \<and>
          (\<forall>j < i. n8nType (BLOCK_TYPE_MAPPINGS ! j) \<noteq> t) \<and>
          getSimBlockType t =
            (simType_of (BLOCK_TYPE_MAPPINGS ! i), defaultHeight_of (BLOCK_TYPE_MAPPINGS ! i)))) \<and>
   (t \<notin> n8nType ` set BLOCK_TYPE_MAPPINGS \<and> CHR ''.'' \<in> set t \<longrightarrow>
      (\<exists>pre seg. t = pre @ ''.'' @ seg \<and> CHR ''.'' \<notin> set seg \<and>
          getSimBlockType t = (snake_every seg, 230) \<and>
          ((\<forall>c cs. seg = c # cs \<longrightarrow> \<not> isUpperAZ c) \<longrightarrow>
             getSimBlockType t = (snake_internal_spec seg, 230)))) \<and>
   (t \<notin> n8nType ` set BLOCK_TYPE_MAPPINGS \<and> CHR ''.'' \<notin> set t \<longrightarrow>
      getSimBlockType t = (''function'', 143))"
proof (intro conjI impI)
  assume "t \<in> n8nType ` set BLOCK_TYPE_MAPPINGS"
  then have "find (\<lambda>m. n8nType m = t) BLOCK_TYPE_MAPPINGS \<noteq> None"
    by (auto simp: find_None_iff)
  then obtain m where m: "find (\<lambda>m. n8nType m = t) BLOCK_TYPE_MAPPINGS = Some m"
    by blast
  then obtain i where i: "i < length BLOCK_TYPE_MAPPINGS" "n8nType (BLOCK_TYPE_MAPPINGS ! i) = t"
      "m = BLOCK_TYPE_MAPPINGS ! i" "\<forall>j<i. n8nType (BLOCK_TYPE_MAPPINGS ! j) \<noteq> t"
    unfolding find_Some_iff by blast
  have "getSimBlockType t = (simType_of m, defaultHeight_of m)"
    by (simp add: getSimBlockType_def m)
  with i show "\<exists>i < length BLOCK_TYPE_MAPPINGS.
          n8nType (BLOCK_TYPE_MAPPINGS ! i) = t \<and>
          (\<forall>j < i. n8nType (BLOCK_TYPE_MAPPINGS ! j) \<noteq> t) \<and>
          getSimBlockType t =
            (simType_of (BLOCK_TYPE_MAPPINGS ! i), defaultHeight_of (BLOCK_TYPE_MAPPINGS ! i))"
    by blast
next
  assume a: "t \<notin> n8nType ` set BLOCK_TYPE_MAPPINGS \<and> CHR ''.'' \<in> set t"
  let ?seg = "rev (takeWhile (\<lambda>c. c \<noteq> CHR ''.'') (rev t))"
  have none: "find (\<lambda>m. n8nType m = t) BLOCK_TYPE_MAPPINGS = None"
    using a by (auto simp: find_None_iff)
  have len: "length (js_split CHR ''.'' t) > 1"
    using a length_js_split_gt1 [of "CHR ''.''" t] by simp
  have "js_split CHR ''.'' t ! (length (js_split CHR ''.'' t) - 1) = last (js_split CHR ''.'' t)"
    by (simp add: js_split_def split_from_nonempty last_conv_nth)
  also have "\<dots> = ?seg"
    using a by (simp add: js_split_def last_split_from)
  finally have seg: "js_split CHR ''.'' t ! (length (js_split CHR ''.'' t) - 1) = ?seg" .
  have g: "getSimBlockType t = (snake_every ?seg, 230)"
    using len seg by (simp add: getSimBlockType_def none Let_def toLowerCase_replace_upper)
  obtain pre where pre: "t = pre @ ''.'' @ ?seg"
    using after_last_sep_decomp [of "CHR ''.''" t] a by auto
  have free: "CHR ''.'' \<notin> set ?seg"
    by (rule after_last_sep_free)
  have "(\<forall>c cs. ?seg = c # cs \<longrightarrow> \<not> isUpperAZ c) \<longrightarrow>
          getSimBlockType t = (snake_internal_spec ?seg, 230)"
    using g snake_every_internal [of ?seg] by simp
  with pre free g show "\<exists>pre seg. t = pre @ ''.'' @ seg \<and> CHR ''.'' \<notin> set seg \<and>
          getSimBlockType t = (snake_every seg, 230) \<and>
          ((\<forall>c cs. seg = c # cs \<longrightarrow> \<not> isUpperAZ c) \<longrightarrow>
             getSimBlockType t = (snake_internal_spec seg, 230))"
    by blast
next
  assume a: "t \<notin> n8nType ` set BLOCK_TYPE_MAPPINGS \<and> CHR ''.'' \<notin> set t"
  have none: "find (\<lambda>m. n8nType m = t) BLOCK_TYPE_MAPPINGS = None"
    using a by (auto simp: find_None_iff)
  have "\<not> length (js_split CHR ''.'' t) > 1"
    using a length_js_split_gt1 [of "CHR ''.''" t] by simp
  then show "getSimBlockType t = (''function'', 143)"
    by (simp add: getSimBlockType_def none Let_def)
qed

lemma getSimBlockType_resolution_examples:
  "''n8n-nodes-base.webhook'' \<in> n8nType ` set BLOCK_TYPE_MAPPINGS \<and>
   getSimBlockType ''n8n-nodes-base.webhook'' = (''webhook'', 172) \<and>
   ''x.fooBar'' \<notin> n8nType ` set BLOCK_TYPE_MAPPINGS \<and> CHR ''.'' \<in> set ''x.fooBar'' \<and>
   getSimBlockType ''x.fooBar'' = (''foo_bar'', 230) \<and>
   ''bare'' \<notin> n8nType ` set BLOCK_TYPE_MAPPINGS \<and> CHR ''.'' \<notin> set ''bare'' \<and>
   getSimBlockType ''bare'' = (''function'', 143)"
proof -
  note r = getSimBlockType_resolution [of "''bare''"]
  have 1: "''n8n-nodes-base.webhook'' \<in> n8nType ` set BLOCK_TYPE_MAPPINGS"
    by (simp add: BLOCK_TYPE_MAPPINGS_def mk_mapping_def)
  have 2: "getSimBlockType ''n8n-nodes-base.webhook'' = (''webhook'', 172)"
    by (simp add: getSimBlockType_def BLOCK_TYPE_MAPPINGS_def mk_mapping_def)
  have 3: "''x.fooBar'' \<notin> n8nType ` set BLOCK_TYPE_MAPPINGS \<and> CHR ''.'' \<in> set ''x.fooBar''"
    by (simp add: BLOCK_TYPE_MAPPINGS_def mk_mapping_def)
  have 4: "getSimBlockType ''x.fooBar'' = (''foo_bar'', 230)"
    by (simp add: getSimBlockType_def BLOCK_TYPE_MAPPINGS_def mk_mapping_def str_defs)
  have 5: "''bare'' \<notin> n8nType ` set BLOCK_TYPE_MAPPINGS \<and> CHR ''.'' \<notin> set ''bare''"
    by (simp add: BLOCK_TYPE_MAPPINGS_def mk_mapping_def)
  have 6: "getSimBlockType ''bare'' = (''function'', 143)"
    using r 5 by blast
  show ?thesis using 1 2 3 4 5 6 by blast
qed

text \<open>
  C1: the code departs from the claim on a last segment that starts with an upper-case
  letter. The claim's snake-case form puts an underscore before each internal upper-case
  letter, so that \<open>pkg.Foo\<close> resolves to \<open>foo\<close> at height 230; the code's regular
  expression also matches the leading letter and the code resolves \<open>pkg.Foo\<close> to
  \<open>_foo\<close>.
\<close>

theorem getSimBlockType_leading_upper:
  "getSimBlockType ''pkg.Foo'' = (''_foo'', 230) \<and> resolve_spec ''pkg.Foo'' = (''foo'', 230) \<and>
   getSimBlockType ''pkg.Foo'' \<noteq> resolve_spec ''pkg.Foo''"
  by (simp add: getSimBlockType_def resolve_spec_def snake_internal_spec_def
      BLOCK_TYPE_MAPPINGS_def mk_mapping_def str_defs)


section \<open>Step 1: the node loop\<close>

lemma convert_node_sticky: "sticky node \<Longrightarrow> convert_node E node i st = Inr st"
  by (simp add: convert_node_def sticky_def)

lemma convert_node_kept:
  "\<not> sticky node \<Longrightarrow>
   convert_node E node i st =
     (case convertParametersToSubBlocks E node (fst (final_type E node)) of
        Inl e \<Rightarrow> Inl e
      | Inr subs \<Rightarrow>
          Inr (st\<lparr>st_warnings := st_warnings st @ node_warnings E node,
                  st_blocks := AList.update (uuid_nth E (uuid_calls st))
                     (block_for E node i (uuid_nth E (uuid_calls st)) subs) (st_blocks st),
                  nodeIdMap := (nodeIdMap st)(node_name node \<mapsto> uuid_nth E (uuid_calls st)),
                  uuid_calls := Suc (uuid_calls st)\<rparr>))"
  by (auto simp: convert_node_def sticky_def uuidv4_def push_warning_def final_type_def
      unavailable_def node_warnings_def block_for_def DEFAULT_LAYOUT_def Let_def
      split: prod.splits sum.splits)

text \<open>What one step of the node loop does to each component of the state.\<close>

lemma convert_node_fields:
  assumes "convert_node E node i st = Inr st'"
  shows "uuid_calls st' = uuid_calls st + length (retained [node])"
    and "st_edges st' = st_edges st"
    and "st_warnings st' = st_warnings st @ node_warnings E node"
    and "nodeIdMap st' = id_map E [node] (uuid_calls st) (nodeIdMap st)"
proof -
  show "uuid_calls st' = uuid_calls st + length (retained [node])"
    using assms
    by (cases "sticky node")
      (auto simp: convert_node_sticky convert_node_kept retained_def split: sum.splits)
  show "st_edges st' = st_edges st"
    using assms
    by (cases "sticky node")
      (auto simp: convert_node_sticky convert_node_kept split: sum.splits)
  show "st_warnings st' = st_warnings st @ node_warnings E node"
    using assms
    by (cases "sticky node")
      (auto simp: convert_node_sticky convert_node_kept node_warnings_def split: sum.splits)
  show "nodeIdMap st' = id_map E [node] (uuid_calls st) (nodeIdMap st)"
    using assms
    by (cases "sticky node")
      (auto simp: convert_node_sticky convert_node_kept split: sum.splits)
qed

lemma retained_Cons: "retained (n # ns) = (if sticky n then retained ns else n # retained ns)"
  by (simp add: retained_def)

lemma retained_append: "retained (xs @ ys) = retained xs @ retained ys"
  by (simp add: retained_def)

lemma id_map_step:
  "id_map E (n # ns) k M = id_map E ns (k + length (retained [n])) (id_map E [n] k M)"
  by (cases "sticky n") (simp_all add: retained_def)

lemma convert_nodes_fields:
  "convert_nodes E ns i st = Inr st' \<Longrightarrow>
     uuid_calls st' = uuid_calls st + length (retained ns) \<and>
     st_edges st' = st_edges st \<and>
     st_warnings st' = st_warnings st @ concat (map (node_warnings E) ns) \<and>
     nodeIdMap st' = id_map E ns (uuid_calls st) (nodeIdMap st)"
proof (induction ns arbitrary: i st)
  case Nil
  then show ?case by (simp add: retained_def)
next
  case (Cons n ns)
  from Cons.prems obtain s1 where s1: "convert_node E n i st = Inr s1"
    and rest: "convert_nodes E ns (Suc i) s1 = Inr st'"
    by (auto split: sum.splits)
  note f = convert_node_fields [OF s1]
  note ih = Cons.IH [OF rest]
  have 1: "uuid_calls st' = uuid_calls st + length (retained (n # ns))"
    using f(1) ih by (simp add: retained_def)
  have 2: "st_edges st' = st_edges st"
    using f(2) ih by simp
  have 3: "st_warnings st' = st_warnings st @ concat (map (node_warnings E) (n # ns))"
    using f(3) ih by simp
  have "nodeIdMap st' = id_map E ns (uuid_calls s1) (nodeIdMap s1)"
    using ih by blast
  also have "\<dots> = id_map E (n # ns) (uuid_calls st) (nodeIdMap st)"
    unfolding f(1) f(4) id_map_step [of E n ns] ..
  finally show ?case using 1 2 3 by blast
qed

text \<open>The keys of \<open>blocks\<close> after Step 1, and the entries that Step 1 leaves alone.\<close>

lemma convert_node_keys:
  assumes "convert_node E node i st = Inr st'"
  shows "fst ` set (st_blocks st') =
           fst ` set (st_blocks st) \<union> uuid_nth E ` {uuid_calls st ..< uuid_calls st'}"
proof (cases "sticky node")
  case True
  then show ?thesis using assms by (simp add: convert_node_sticky)
next
  case False
  then obtain subs where
    "st' = st\<lparr>st_warnings := st_warnings st @ node_warnings E node,
                  st_blocks := AList.update (uuid_nth E (uuid_calls st))
                     (block_for E node i (uuid_nth E (uuid_calls st)) subs) (st_blocks st),
                  nodeIdMap := (nodeIdMap st)(node_name node \<mapsto> uuid_nth E (uuid_calls st)),
                  uuid_calls := Suc (uuid_calls st)\<rparr>"
    using assms by (auto simp: convert_node_kept split: sum.splits)
  then show ?thesis by (simp add: dom_update)
qed

lemma convert_nodes_keys:
  "convert_nodes E ns i st = Inr st' \<Longrightarrow>
     fst ` set (st_blocks st') =
       fst ` set (st_blocks st) \<union> uuid_nth E ` {uuid_calls st ..< uuid_calls st'}"
proof (induction ns arbitrary: i st)
  case Nil
  then show ?case by simp
next
  case (Cons n ns)
  from Cons.prems obtain s1 where s1: "convert_node E n i st = Inr s1"
    and rest: "convert_nodes E ns (Suc i) s1 = Inr st'"
    by (auto split: sum.splits)
  have le1: "uuid_calls st \<le> uuid_calls s1"
    using convert_node_fields(1) [OF s1] by simp
  have le2: "uuid_calls s1 \<le> uuid_calls st'"
    using convert_nodes_fields [OF rest] by simp
  have "{uuid_calls st ..< uuid_calls st'} =
          {uuid_calls st ..< uuid_calls s1} \<union> {uuid_calls s1 ..< uuid_calls st'}"
    using le1 le2 by auto
  then show ?case
    using convert_node_keys [OF s1] Cons.IH [OF rest] by (simp add: image_Un Un_assoc)
qed

lemma convert_node_distinct:
  assumes "convert_node E node i st = Inr st'" "distinct (map fst (st_blocks st))"
  shows "distinct (map fst (st_blocks st'))"
  using assms
  by (cases "sticky node")
    (auto simp: convert_node_sticky convert_node_kept distinct_update split: sum.splits)

lemma convert_nodes_distinct:
  "convert_nodes E ns i st = Inr st' \<Longrightarrow> distinct (map fst (st_blocks st)) \<Longrightarrow>
     distinct (map fst (st_blocks st'))"
proof (induction ns arbitrary: i st)
  case Nil
  then show ?case by simp
next
  case (Cons n ns)
  from Cons.prems obtain s1 where s1: "convert_node E n i st = Inr s1"
    and rest: "convert_nodes E ns (Suc i) s1 = Inr st'"
    by (auto split: sum.splits)
  show ?case
    using Cons.IH [OF rest convert_node_distinct [OF s1 Cons.prems(2)]] .
qed

lemma convert_node_other_key:
  assumes "convert_node E node i st = Inr st'" "key \<noteq> uuid_nth E (uuid_calls st)"
  shows "map_of (st_blocks st') key = map_of (st_blocks st) key"
  using assms
  by (cases "sticky node")
    (auto simp: convert_node_sticky convert_node_kept update_conv' split: sum.splits)

lemma convert_nodes_other_key:
  "convert_nodes E ns i st = Inr st' \<Longrightarrow>
   key \<notin> uuid_nth E ` {uuid_calls st ..< uuid_calls st'} \<Longrightarrow>
     map_of (st_blocks st') key = map_of (st_blocks st) key"
proof (induction ns arbitrary: i st)
  case Nil
  then show ?case by simp
next
  case (Cons n ns)
  from Cons.prems obtain s1 where s1: "convert_node E n i st = Inr s1"
    and rest: "convert_nodes E ns (Suc i) s1 = Inr st'"
    by (auto split: sum.splits)
  have c1: "uuid_calls s1 = uuid_calls st + length (retained [n])"
    using convert_node_fields(1) [OF s1] .
  have le2: "uuid_calls s1 \<le> uuid_calls st'"
    using convert_nodes_fields [OF rest] by simp
  have k2: "key \<notin> uuid_nth E ` {uuid_calls s1 ..< uuid_calls st'}"
    using Cons.prems(2) c1 by auto
  have "map_of (st_blocks s1) key = map_of (st_blocks st) key"
  proof (cases "sticky n")
    case True
    then show ?thesis using s1 by (simp add: convert_node_sticky)
  next
    case False
    then have "uuid_calls st < uuid_calls st'"
      using c1 le2 by (simp add: retained_def)
    then have "key \<noteq> uuid_nth E (uuid_calls st)"
      using Cons.prems(2) by auto
    then show ?thesis by (rule convert_node_other_key [OF s1])
  qed
  then show ?case using Cons.IH [OF rest k2] by simp
qed

lemma id_map_append:
  "id_map E (xs @ ys) k M = id_map E ys (k + length (retained xs)) (id_map E xs k M)"
  by (induction xs arbitrary: k M) (simp_all add: retained_def)

lemma id_map_other:
  "name \<notin> node_name ` set (retained ns) \<Longrightarrow> id_map E ns k M name = M name"
proof (induction ns arbitrary: k M)
  case Nil
  show ?case by simp
next
  case (Cons n ns)
  show ?case
  proof (cases "sticky n")
    case True
    then show ?thesis using Cons by (simp add: retained_def)
  next
    case False
    then have ne: "name \<noteq> node_name n" and rest: "name \<notin> node_name ` set (retained ns)"
      using Cons.prems by (auto simp: retained_def)
    have "id_map E (n # ns) k M name =
            id_map E ns (Suc k) (M(node_name n \<mapsto> uuid_nth E k)) name"
      using False by simp
    also have "\<dots> = (M(node_name n \<mapsto> uuid_nth E k)) name"
      by (rule Cons.IH [OF rest])
    also have "\<dots> = M name"
      using ne by simp
    finally show ?thesis .
  qed
qed

lemma id_map_dom: "dom (id_map E ns k M) = dom M \<union> node_name ` set (retained ns)"
  by (induction ns arbitrary: k M) (auto simp: retained_def)

lemma id_map_range:
  "id_map E ns k M name = Some i \<Longrightarrow>
     M name = Some i \<or> i \<in> uuid_nth E ` {k ..< k + length (retained ns)}"
proof (induction ns arbitrary: k M)
  case Nil
  then show ?case by simp
next
  case (Cons n ns)
  show ?case
  proof (cases "sticky n")
    case True
    then show ?thesis using Cons.IH [of k M] Cons.prems by (simp add: retained_def)
  next
    case False
    then have "id_map E ns (Suc k) (M(node_name n \<mapsto> uuid_nth E k)) name = Some i"
      using Cons.prems by simp
    from Cons.IH [OF this]
    have "(M(node_name n \<mapsto> uuid_nth E k)) name = Some i \<or>
          i \<in> uuid_nth E ` {Suc k ..< Suc k + length (retained ns)}" .
    then show ?thesis
    proof
      assume "(M(node_name n \<mapsto> uuid_nth E k)) name = Some i"
      then have "M name = Some i \<or> i = uuid_nth E k"
        by (auto split: if_splits)
      then show ?thesis using False by (auto simp: retained_def)
    next
      assume "i \<in> uuid_nth E ` {Suc k ..< Suc k + length (retained ns)}"
      then show ?thesis using False by (auto simp: retained_def)
    qed
  qed
qed

text \<open>The last kept node of a name is the one that the map binds the name to.\<close>

lemma id_map_last:
  assumes "\<not> sticky n" "node_name n \<notin> node_name ` set (retained ns2)"
  shows "id_map E (ns1 @ n # ns2) k M (node_name n) = Some (uuid_nth E (k + length (retained ns1)))"
proof -
  have "id_map E (ns1 @ n # ns2) k M =
          id_map E (n # ns2) (k + length (retained ns1)) (id_map E ns1 k M)"
    by (rule id_map_append)
  also have "\<dots> = id_map E ns2 (Suc (k + length (retained ns1)))
                    ((id_map E ns1 k M)(node_name n \<mapsto> uuid_nth E (k + length (retained ns1))))"
    using assms(1) by simp
  finally show ?thesis
    using id_map_other [OF assms(2)] by simp
qed

lemma convert_nodes_append:
  "convert_nodes E (xs @ ys) i st =
     (case convert_nodes E xs i st of
        Inl e \<Rightarrow> Inl e
      | Inr s1 \<Rightarrow> convert_nodes E ys (i + length xs) s1)"
  by (induction xs arbitrary: i st) (auto split: sum.splits)

text \<open>Started on the empty state, Step 1 leaves a closed state with one block per
  identifier handed out.\<close>

lemma step1_keys:
  assumes "convert_nodes E ns 0 init_state = Inr st"
  shows "fst ` set (st_blocks st) = uuid_nth E ` {0 ..< length (retained ns)}"
  using convert_nodes_keys [OF assms] convert_nodes_fields [OF assms]
  by (simp add: init_state_def)

lemma step1_closed:
  assumes "convert_nodes E ns 0 init_state = Inr st"
  shows "closed st"
  unfolding closed_def
proof (intro allI impI)
  fix n i
  assume r: "resolve (nodeIdMap st) n = Some i"
  then have "nodeIdMap st n = Some i"
    by (auto simp: resolve_def split: option.splits if_splits)
  then have "id_map E ns 0 Map.empty n = Some i"
    using convert_nodes_fields [OF assms] by (simp add: init_state_def)
  from id_map_range [OF this] have "i \<in> uuid_nth E ` {0 ..< length (retained ns)}"
    by simp
  then show "i \<in> fst ` set (st_blocks st)"
    using step1_keys [OF assms] by simp
qed

lemma step1_length:
  assumes "convert_nodes E ns 0 init_state = Inr st" "inj (uuid_nth E)"
  shows "length (st_blocks st) = length (retained ns)"
proof -
  have d: "distinct (map fst (st_blocks st))"
    using convert_nodes_distinct [OF assms(1)] by (simp add: init_state_def)
  have "length (st_blocks st) = length (map fst (st_blocks st))" by simp
  also have "\<dots> = card (set (map fst (st_blocks st)))"
    using d by (simp only: distinct_card)
  also have "\<dots> = card (uuid_nth E ` {0 ..< length (retained ns)})"
    using step1_keys [OF assms(1)] by simp
  also have "\<dots> = length (retained ns)"
    using assms(2) by (simp add: card_image inj_on_def inj_def)
  finally show ?thesis .
qed

text \<open>The block of a kept node is stored under the node's identifier.\<close>

lemma step1_block:
  assumes run: "convert_nodes E (ns1 @ n # ns2) 0 init_state = Inr st"
    and kept: "\<not> sticky n" and inj: "inj (uuid_nth E)"
  shows "\<exists>subs. convertParametersToSubBlocks E n (fst (final_type E n)) = Inr subs \<and>
           map_of (st_blocks st) (uuid_nth E (length (retained ns1))) =
             Some (block_for E n (length ns1) (uuid_nth E (length (retained ns1))) subs)"
proof -
  from run obtain s1 where s1: "convert_nodes E ns1 0 init_state = Inr s1"
    and r2: "convert_nodes E (n # ns2) (length ns1) s1 = Inr st"
    by (auto simp: convert_nodes_append split: sum.splits)
  from r2 obtain s2 where s2: "convert_node E n (length ns1) s1 = Inr s2"
    and r3: "convert_nodes E ns2 (Suc (length ns1)) s2 = Inr st"
    by (auto split: sum.splits)
  have c1: "uuid_calls s1 = length (retained ns1)"
    using convert_nodes_fields [OF s1] by (simp add: init_state_def)
  from s2 kept obtain subs where
    subs: "convertParametersToSubBlocks E n (fst (final_type E n)) = Inr subs"
    and s2_eq: "s2 = s1\<lparr>st_warnings := st_warnings s1 @ node_warnings E n,
                  st_blocks := AList.update (uuid_nth E (uuid_calls s1))
                     (block_for E n (length ns1) (uuid_nth E (uuid_calls s1)) subs) (st_blocks s1),
                  nodeIdMap := (nodeIdMap s1)(node_name n \<mapsto> uuid_nth E (uuid_calls s1)),
                  uuid_calls := Suc (uuid_calls s1)\<rparr>"
    by (auto simp: convert_node_kept split: sum.splits)
  have at_s2: "map_of (st_blocks s2) (uuid_nth E (length (retained ns1))) =
      Some (block_for E n (length ns1) (uuid_nth E (length (retained ns1))) subs)"
    using s2_eq c1 by (simp add: update_conv')
  have c2: "uuid_calls s2 = Suc (length (retained ns1))"
    using s2_eq c1 by simp
  have "uuid_nth E (length (retained ns1)) \<notin> uuid_nth E ` {uuid_calls s2 ..< uuid_calls st}"
    using c2 by (auto dest!: injD [OF inj])
  from convert_nodes_other_key [OF r3 this] at_s2 subs show ?thesis by auto
qed


section \<open>Step 2: the connection loops\<close>

lemma links_append: "links (xs @ ys) = links xs @ links ys"
  by (induction xs rule: links.induct) simp_all

lemma warns_append: "warns (xs @ ys) = warns xs @ warns ys"
  by (induction xs rule: warns.induct) simp_all

lemma edges_for_append:
  "edges_for E B k (xs @ ys) = edges_for E B k xs @ edges_for E B (k + length xs) ys"
  by (induction xs arbitrary: k) simp_all

lemma length_edges_for: "length (edges_for E B k ls) = length ls"
  by (induction ls arbitrary: k) simp_all

lemma after_Nil: "after E st [] = st"
  by (simp add: after_def)

lemma after_fields:
  "st_blocks (after E st os) = st_blocks st"
  "nodeIdMap (after E st os) = nodeIdMap st"
  "st_warnings (after E st os) = st_warnings st @ warns os"
  "st_edges (after E st os) = st_edges st @ edges_for E (st_blocks st) (uuid_calls st) (links os)"
  "uuid_calls (after E st os) = uuid_calls st + length (links os)"
  by (simp_all add: after_def)

lemma after_append: "after E (after E st xs) ys = after E st (xs @ ys)"
  by (simp add: after_def links_append warns_append edges_for_append add.assoc)

lemma closed_after: "closed (after E st os) = closed st"
  by (simp add: closed_def after_fields)

lemma resolve_Some: "resolve M n = Some i \<longleftrightarrow> M n = Some i \<and> i \<noteq> []"
  by (auto simp: resolve_def split: option.splits)

lemma resolve_None: "resolve M n = None \<longleftrightarrow> (M n = None \<or> M n = Some [])"
  by (auto simp: resolve_def split: option.splits)

text \<open>One target entry: a warning when the target does not resolve, an edge otherwise.\<close>

lemma convert_connection_unresolved:
  "resolve (nodeIdMap st) (conn_node c) = None \<Longrightarrow>
     convert_connection E sid branch c st = Inr (push_warning (target_warning (conn_node c)) st)"
  by (auto simp: convert_connection_def resolve_None falsy_id_def split: option.splits)

lemma convert_connection_after:
  assumes "sid \<in> fst ` set (st_blocks st)"
  shows "convert_connection E sid branch c st =
           Inr (after E st [target_outcome (nodeIdMap st) sid branch c])"
proof (cases "resolve (nodeIdMap st) (conn_node c)")
  case None
  then show ?thesis
    by (simp add: convert_connection_unresolved target_outcome_def after_def push_warning_def)
next
  case (Some tid)
  then have t: "nodeIdMap st (conn_node c) = Some tid" "tid \<noteq> []"
    by (simp_all add: resolve_Some)
  from assms obtain b where b: "map_of (st_blocks st) sid = Some b"
    by (cases "map_of (st_blocks st) sid") (auto simp: map_of_eq_None_iff)
  show ?thesis
    using t b Some
    by (simp add: convert_connection_def falsy_id_def target_outcome_def after_def uuidv4_def
        edge_for_def handle_for_def Let_def)
qed

lemma convert_group_after:
  assumes "sid \<in> fst ` set (st_blocks st)"
  shows "convert_group E sid branch g st =
           Inr (after E st (map (target_outcome (nodeIdMap st) sid branch) g))"
  using assms
proof (induction g arbitrary: st)
  case Nil
  show ?case by (simp add: after_Nil)
next
  case (Cons c g)
  let ?s1 = "after E st [target_outcome (nodeIdMap st) sid branch c]"
  have 1: "convert_connection E sid branch c st = Inr ?s1"
    by (rule convert_connection_after [OF Cons.prems])
  have k: "sid \<in> fst ` set (st_blocks ?s1)"
    using Cons.prems by (simp add: after_fields)
  have "convert_group E sid branch (c # g) st = convert_group E sid branch g ?s1"
    by (simp add: 1)
  also have "\<dots> = Inr (after E ?s1 (map (target_outcome (nodeIdMap ?s1) sid branch) g))"
    by (rule Cons.IH [OF k])
  also have "\<dots> = Inr (after E st (map (target_outcome (nodeIdMap st) sid branch) (c # g)))"
    by (simp add: after_append after_fields)
  finally show ?case .
qed

lemma convert_main_after:
  assumes "sid \<in> fst ` set (st_blocks st)"
  shows "convert_main E sid branch gs st =
           Inr (after E st (branch_outcomes (nodeIdMap st) sid branch gs))"
  using assms
proof (induction gs arbitrary: st branch)
  case Nil
  show ?case by (simp add: after_Nil)
next
  case (Cons g gs)
  let ?s1 = "after E st (map (target_outcome (nodeIdMap st) sid branch) g)"
  have 1: "convert_group E sid branch g st = Inr ?s1"
    by (rule convert_group_after [OF Cons.prems])
  have k: "sid \<in> fst ` set (st_blocks ?s1)"
    using Cons.prems by (simp add: after_fields)
  have "convert_main E sid branch (g # gs) st = convert_main E sid (Suc branch) gs ?s1"
    by (simp add: 1)
  also have "\<dots> = Inr (after E ?s1 (branch_outcomes (nodeIdMap ?s1) sid (Suc branch) gs))"
    by (rule Cons.IH [OF k])
  also have "\<dots> = Inr (after E st (branch_outcomes (nodeIdMap st) sid branch (g # gs)))"
    by (simp add: after_append after_fields)
  finally show ?case .
qed

text \<open>One connection group: a single warning when the source does not resolve.\<close>

lemma convert_entry_unresolved:
  "resolve (nodeIdMap st) sourceName = None \<Longrightarrow>
     convert_entry E sourceName cd st = Inr (push_warning (source_warning sourceName) st)"
  by (auto simp: convert_entry_def resolve_None falsy_id_def split: option.splits)

lemma convert_entry_after:
  assumes "closed st"
  shows "convert_entry E sourceName cd st =
           Inr (after E st (group_outcomes (nodeIdMap st) (sourceName, cd)))"
proof (cases "resolve (nodeIdMap st) sourceName")
  case None
  then show ?thesis
    by (simp add: convert_entry_unresolved group_outcomes_def after_def push_warning_def)
next
  case (Some sid)
  then have s: "nodeIdMap st sourceName = Some sid" "sid \<noteq> []"
    by (simp_all add: resolve_Some)
  have k: "sid \<in> fst ` set (st_blocks st)"
    using assms Some unfolding closed_def by blast
  show ?thesis
    using s Some convert_main_after [OF k, of E 0 "main_or_empty cd"]
    by (simp add: convert_entry_def falsy_id_def group_outcomes_def main_or_empty_def)
qed

lemma convert_connections_after:
  assumes "closed st"
  shows "convert_connections E cs st = Inr (after E st (outcomes (nodeIdMap st) cs))"
  using assms
proof (induction cs arbitrary: st)
  case Nil
  show ?case by (simp add: outcomes_def after_Nil)
next
  case (Cons entry cs)
  obtain sourceName cd where e: "entry = (sourceName, cd)" by (cases entry)
  let ?s1 = "after E st (group_outcomes (nodeIdMap st) (sourceName, cd))"
  have 1: "convert_entry E sourceName cd st = Inr ?s1"
    by (rule convert_entry_after [OF Cons.prems])
  have c: "closed ?s1"
    using Cons.prems by (simp add: closed_after)
  have "convert_connections E (entry # cs) st = convert_connections E cs ?s1"
    by (simp add: e 1)
  also have "\<dots> = Inr (after E ?s1 (outcomes (nodeIdMap ?s1) cs))"
    by (rule Cons.IH [OF c])
  also have "\<dots> = Inr (after E st (outcomes (nodeIdMap st) (entry # cs)))"
    by (simp add: after_append after_fields outcomes_def e)
  finally show ?case .
qed


section \<open>The whole conversion\<close>

lemma success_iff: "success (convertN8NToSim E w) \<longleftrightarrow> (\<exists>st. run_steps E w = Inr st)"
  by (simp add: convertN8NToSim_def split: sum.splits)

lemma step1_map:
  assumes "convert_nodes E ns 0 init_state = Inr s1"
  shows "nodeIdMap s1 = id_map E ns 0 Map.empty" "uuid_calls s1 = length (retained ns)"
    "st_edges s1 = []" "st_warnings s1 = concat (map (node_warnings E) ns)"
  using convert_nodes_fields [OF assms] by (simp_all add: init_state_def)

lemma run_steps_eq:
  "run_steps E w =
     (case convert_nodes E (nodes w) 0 init_state of
        Inl e \<Rightarrow> Inl e
      | Inr s1 \<Rightarrow> Inr (after E s1 (outcomes (id_map E (nodes w) 0 Map.empty) (connections w))))"
proof (cases "convert_nodes E (nodes w) 0 init_state")
  case (Inl e)
  then show ?thesis by (simp add: run_steps_def)
next
  case (Inr s1)
  have "convert_connections E (connections w) s1 =
          Inr (after E s1 (outcomes (nodeIdMap s1) (connections w)))"
    by (rule convert_connections_after [OF step1_closed [OF Inr]])
  then show ?thesis
    using Inr step1_map(1) [OF Inr] by (simp add: run_steps_def)
qed

text \<open>A successful result, read off the two steps.\<close>

lemma conversion_success:
  assumes "success (convertN8NToSim E w)"
  shows "\<exists>s1 wf. convert_nodes E (nodes w) 0 init_state = Inr s1 \<and>
           workflow (convertN8NToSim E w) = Some wf \<and>
           blocks (state wf) = st_blocks s1 \<and>
           edges (state wf) =
             edges_for E (st_blocks s1) (length (retained (nodes w)))
               (links (outcomes (id_map E (nodes w) 0 Map.empty) (connections w))) \<and>
           warning_list (convertN8NToSim E w) =
             concat (map (node_warnings E) (nodes w)) @
             warns (outcomes (id_map E (nodes w) 0 Map.empty) (connections w))"
proof -
  let ?os = "outcomes (id_map E (nodes w) 0 Map.empty) (connections w)"
  from assms obtain st where st: "run_steps E w = Inr st"
    by (auto simp: success_iff)
  then obtain s1 where s1: "convert_nodes E (nodes w) 0 init_state = Inr s1"
    and st_eq: "st = after E s1 ?os"
    by (auto simp: run_steps_eq split: sum.splits)
  note m = step1_map [OF s1]
  have w: "workflow (convertN8NToSim E w) = Some (build_workflow E w st)"
    by (simp add: convertN8NToSim_def st)
  have b: "blocks (state (build_workflow E w st)) = st_blocks s1"
    by (simp add: build_workflow_def st_eq after_fields)
  have e: "edges (state (build_workflow E w st)) =
             edges_for E (st_blocks s1) (length (retained (nodes w))) (links ?os)"
    by (simp add: build_workflow_def st_eq after_fields m)
  have "warning_list (convertN8NToSim E w) = st_warnings st"
    by (simp add: convertN8NToSim_def st warning_list_def)
  then have ws: "warning_list (convertN8NToSim E w) =
      concat (map (node_warnings E) (nodes w)) @ warns ?os"
    by (simp add: st_eq after_fields m)
  show ?thesis using s1 w b e ws by blast
qed

text \<open>The conversion fails only on a node without parameters.\<close>

lemma subBlocks_loop_total:
  "node_parameters node = Some ps \<Longrightarrow> \<exists>subs. subBlocks_loop E node t defs acc = Inr subs"
  by (induction defs arbitrary: acc) simp_all

lemma convertParametersToSubBlocks_total:
  "node_parameters node = Some ps \<Longrightarrow> \<exists>subs. convertParametersToSubBlocks E node t = Inr subs"
  by (auto simp: convertParametersToSubBlocks_def generic_subBlocks_def subBlocks_loop_total
      split: option.splits)

lemma convert_node_total:
  assumes "node_parameters node \<noteq> None"
  shows "\<exists>st'. convert_node E node i st = Inr st'"
proof (cases "sticky node")
  case True
  then show ?thesis by (simp add: convert_node_sticky)
next
  case False
  from assms obtain ps where "node_parameters node = Some ps" by auto
  from convertParametersToSubBlocks_total [OF this]
  obtain subs where "convertParametersToSubBlocks E node (fst (final_type E node)) = Inr subs"
    by blast
  then show ?thesis using False by (simp add: convert_node_kept)
qed

lemma convert_nodes_total:
  "\<forall>n \<in> set ns. node_parameters n \<noteq> None \<Longrightarrow> \<exists>st'. convert_nodes E ns i st = Inr st'"
proof (induction ns arbitrary: i st)
  case Nil
  show ?case by simp
next
  case (Cons n ns)
  then obtain s1 where s1: "convert_node E n i st = Inr s1"
    using convert_node_total [of n E i st] by auto
  from Cons obtain st' where "convert_nodes E ns (Suc i) s1 = Inr st'"
    by fastforce
  then show ?case by (simp add: s1)
qed

lemma conversion_total:
  assumes "\<forall>n \<in> set (nodes w). node_parameters n \<noteq> None"
  shows "success (convertN8NToSim E w)"
proof -
  from convert_nodes_total [OF assms] obtain s1 where
    "convert_nodes E (nodes w) 0 init_state = Inr s1" by blast
  then show ?thesis by (simp add: success_iff run_steps_eq)
qed

text \<open>The block that a successful conversion holds for a kept node.\<close>

lemma produced_block:
  assumes ok: "success (convertN8NToSim E w)" and inj: "inj (uuid_nth E)"
    and pos: "nodes w = ns1 @ n # ns2" and kept: "\<not> sticky n"
  shows "\<exists>wf subs. workflow (convertN8NToSim E w) = Some wf \<and>
           convertParametersToSubBlocks E n (fst (final_type E n)) = Inr subs \<and>
           map_of (blocks (state wf)) (uuid_nth E (length (retained ns1))) =
             Some (block_for E n (length ns1) (uuid_nth E (length (retained ns1))) subs)"
proof -
  from conversion_success [OF ok] obtain s1 wf where
    s1: "convert_nodes E (nodes w) 0 init_state = Inr s1"
    and wf: "workflow (convertN8NToSim E w) = Some wf" "blocks (state wf) = st_blocks s1"
    by blast
  from step1_block [OF s1 [unfolded pos] kept inj] wf show ?thesis by auto
qed

lemma edges_for_nth:
  "k < length ls \<Longrightarrow> edges_for E B j ls ! k = edge_for B (uuid_nth E (j + k)) (ls ! k)"
proof (induction ls arbitrary: j k)
  case Nil
  then show ?case by simp
next
  case (Cons l ls)
  then show ?case by (cases k) simp_all
qed

lemma edges_for_map:
  "map (\<lambda>e. (source e, target e)) (edges_for E B j ls) = map (\<lambda>l. (fst l, snd (snd l))) ls"
  by (induction ls arbitrary: j) (simp_all add: edge_for_def)

text \<open>Where a link comes from: a group whose source name resolves, and in it a target
  entry of the branch whose name resolves.\<close>

lemma links_map_target:
  "l \<in> set (links (map (target_outcome M sid branch) g)) \<longleftrightarrow>
     (\<exists>c \<in> set g. resolve M (conn_node c) = Some (snd (snd l)) \<and> fst l = sid \<and> fst (snd l) = branch)"
  by (induction g) (auto simp: target_outcome_def split: option.splits)

lemma links_branch_outcomes:
  "l \<in> set (links (branch_outcomes M sid j gs)) \<longleftrightarrow>
     (fst l = sid \<and> j \<le> fst (snd l) \<and> fst (snd l) - j < length gs \<and>
      (\<exists>c \<in> set (gs ! (fst (snd l) - j)). resolve M (conn_node c) = Some (snd (snd l))))"
proof (induction gs arbitrary: j)
  case Nil
  show ?case by simp
next
  case (Cons g gs)
  show ?case
  proof (cases "fst (snd l) = j")
    case True
    then show ?thesis
      by (auto simp: links_append links_map_target Cons.IH)
  next
    case False
    have "l \<in> set (links (branch_outcomes M sid j (g # gs))) \<longleftrightarrow>
            l \<in> set (links (branch_outcomes M sid (Suc j) gs))"
      using False by (auto simp: links_append links_map_target)
    also have "\<dots> \<longleftrightarrow> (fst l = sid \<and> Suc j \<le> fst (snd l) \<and> fst (snd l) - Suc j < length gs \<and>
      (\<exists>c \<in> set (gs ! (fst (snd l) - Suc j)). resolve M (conn_node c) = Some (snd (snd l))))"
      by (rule Cons.IH)
    also have "\<dots> \<longleftrightarrow> (fst l = sid \<and> j \<le> fst (snd l) \<and> fst (snd l) - j < length (g # gs) \<and>
      (\<exists>c \<in> set ((g # gs) ! (fst (snd l) - j)). resolve M (conn_node c) = Some (snd (snd l))))"
    proof (cases "Suc j \<le> fst (snd l)")
      case True
      then obtain d where d: "fst (snd l) - j = Suc d" "fst (snd l) - Suc j = d"
        by (metis Suc_diff_Suc Suc_le_lessD diff_Suc_eq_diff_pred diff_Suc_1)
      show ?thesis using True d by auto
    next
      case False
      with \<open>fst (snd l) \<noteq> j\<close> show ?thesis by auto
    qed
    finally show ?thesis .
  qed
qed

lemma links_outcomes:
  "l \<in> set (links (outcomes M cs)) \<longleftrightarrow>
     (\<exists>entry \<in> set cs.
        resolve M (fst entry) = Some (fst l) \<and>
        fst (snd l) < length (main_or_empty (snd entry)) \<and>
        (\<exists>c \<in> set (main_or_empty (snd entry) ! fst (snd l)).
           resolve M (conn_node c) = Some (snd (snd l))))"
proof (induction cs)
  case Nil
  show ?case by (simp add: outcomes_def)
next
  case (Cons entry cs)
  have split: "links (outcomes M (entry # cs)) =
      links (group_outcomes M entry) @ links (outcomes M cs)"
    by (simp add: outcomes_def links_append)
  have here: "l \<in> set (links (group_outcomes M entry)) \<longleftrightarrow>
      (resolve M (fst entry) = Some (fst l) \<and>
        fst (snd l) < length (main_or_empty (snd entry)) \<and>
        (\<exists>c \<in> set (main_or_empty (snd entry) ! fst (snd l)).
           resolve M (conn_node c) = Some (snd (snd l))))"
    by (cases "resolve M (fst entry)")
      (auto simp: group_outcomes_def links_branch_outcomes)
  show ?case
    unfolding split using here Cons.IH by auto
qed

lemma link_endpoints:
  assumes s1: "convert_nodes E ns 0 init_state = Inr s1"
    and l: "l \<in> set (links (outcomes (id_map E ns 0 Map.empty) cs))"
  shows "fst l \<in> fst ` set (st_blocks s1)" "snd (snd l) \<in> fst ` set (st_blocks s1)"
proof -
  have c: "closed s1" by (rule step1_closed [OF s1])
  have m: "nodeIdMap s1 = id_map E ns 0 Map.empty" by (rule step1_map(1) [OF s1])
  from l have "(\<exists>n. resolve (id_map E ns 0 Map.empty) n = Some (fst l)) \<and>
      (\<exists>n. resolve (id_map E ns 0 Map.empty) n = Some (snd (snd l)))"
    by (auto simp: links_outcomes)
  then show "fst l \<in> fst ` set (st_blocks s1)" "snd (snd l) \<in> fst ` set (st_blocks s1)"
    using c m unfolding closed_def by auto
qed

section \<open>Edge handles\<close>

text \<open>
  C2. In a successful conversion the emitted edges are, in order, the links of the
  connection table: the entries whose source and target names both resolve, each with the
  branch index it stands in. The \<open>k\<close>-th edge runs from the source block of the
  \<open>k\<close>-th link to its target block; its source handle is \<open>condition-cond-true\<close> when
  the source block has type \<open>condition\<close> and the branch index is 0,
  \<open>condition-cond-else\<close> when the source block has type \<open>condition\<close> and the branch
  index is anything else, and \<open>source\<close> for a source block of any other type; its
  target handle is \<open>target\<close>.
\<close>

theorem edge_handles:
  assumes "success (convertN8NToSim E w)"
  shows "\<exists>wf ls. workflow (convertN8NToSim E w) = Some wf \<and>
           ls = links (outcomes (id_map E (nodes w) 0 Map.empty) (connections w)) \<and>
           length (edges (state wf)) = length ls \<and>
           (\<forall>k < length ls. \<exists>b.
              source (edges (state wf) ! k) = fst (ls ! k) \<and>
              target (edges (state wf) ! k) = snd (snd (ls ! k)) \<and>
              map_of (blocks (state wf)) (fst (ls ! k)) = Some b \<and>
              sourceHandle (edges (state wf) ! k) =
                (if block_type b = ''condition''
                 then (if fst (snd (ls ! k)) = 0 then ''condition-cond-true''
                       else ''condition-cond-else'')
                 else ''source'') \<and>
              targetHandle (edges (state wf) ! k) = ''target'')"
proof -
  let ?ls = "links (outcomes (id_map E (nodes w) 0 Map.empty) (connections w))"
  from conversion_success [OF assms] obtain s1 wf where
    s1: "convert_nodes E (nodes w) 0 init_state = Inr s1"
    and wf: "workflow (convertN8NToSim E w) = Some wf"
    and b: "blocks (state wf) = st_blocks s1"
    and e: "edges (state wf) = edges_for E (st_blocks s1) (length (retained (nodes w))) ?ls"
    by blast
  have len: "length (edges (state wf)) = length ?ls"
    by (simp add: e length_edges_for)
  have each: "\<exists>b. source (edges (state wf) ! k) = fst (?ls ! k) \<and>
              target (edges (state wf) ! k) = snd (snd (?ls ! k)) \<and>
              map_of (blocks (state wf)) (fst (?ls ! k)) = Some b \<and>
              sourceHandle (edges (state wf) ! k) =
                (if block_type b = ''condition''
                 then (if fst (snd (?ls ! k)) = 0 then ''condition-cond-true''
                       else ''condition-cond-else'')
                 else ''source'') \<and>
              targetHandle (edges (state wf) ! k) = ''target''"
    if k: "k < length ?ls" for k
  proof -
    have "?ls ! k \<in> set ?ls" using k by simp
    from link_endpoints(1) [OF s1 this]
    obtain blk where blk: "map_of (st_blocks s1) (fst (?ls ! k)) = Some blk"
      by (cases "map_of (st_blocks s1) (fst (?ls ! k))") (auto simp: map_of_eq_None_iff)
    have "edges (state wf) ! k =
            edge_for (st_blocks s1) (uuid_nth E (length (retained (nodes w)) + k)) (?ls ! k)"
      unfolding e by (rule edges_for_nth [OF k])
    then show ?thesis
      using blk by (simp add: b edge_for_def handle_for_def)
  qed
  show ?thesis using wf len each by blast
qed

theorem edge_handles_witness:
  "success (convertN8NToSim demo_env demo_workflow) \<and>
   map (\<lambda>e. (source e, sourceHandle e, target e, targetHandle e))
     (edges (state (the (workflow (convertN8NToSim demo_env demo_workflow))))) =
     [(''u'', ''condition-cond-true'', ''uu'', ''target''),
      (''u'', ''condition-cond-else'', ''uuu'', ''target''),
      (''uu'', ''source'', ''uuu'', ''target'')]"
proof -
  have ok: "success (convertN8NToSim demo_env demo_workflow)"
    by code_simp
  have "map (\<lambda>e. (source e, sourceHandle e, target e, targetHandle e))
     (edges (state (the (workflow (convertN8NToSim demo_env demo_workflow))))) =
     [(''u'', ''condition-cond-true'', ''uu'', ''target''),
      (''u'', ''condition-cond-else'', ''uuu'', ''target''),
      (''uu'', ''source'', ''uuu'', ''target'')]"
    by code_simp
  with ok edge_handles [OF ok] show ?thesis by blast
qed

lemma id_map_unbound:
  "name \<notin> node_name ` set (retained ns) \<Longrightarrow> resolve (id_map E ns 0 Map.empty) name = None"
  by (simp add: id_map_other resolve_def)

lemma convert_group_unresolved:
  "resolve (nodeIdMap st) (conn_node c) = None \<Longrightarrow>
     convert_group E sid branch (c # rest) st =
       convert_group E sid branch rest (push_warning (target_warning (conn_node c)) st)"
  by (simp add: convert_connection_unresolved)

section \<open>Dangling references\<close>

text \<open>
  C3. In a successful conversion, with \<open>M\<close> the name-to-id map that Step 1 leaves:
  the source and the target of every edge are keys of the result's \<open>blocks\<close>; the edges
  are, in order, the links of the connection table, and an entry is a link exactly when
  its group's source name and its own target name both resolve through \<open>M\<close>, so an entry
  with an unresolved name produces no edge; a name that no kept node bears does not
  resolve; and the warnings are those of Step 1 followed by one warning for each group
  whose source does not resolve and one for each target entry that does not resolve in a
  group whose source does. In the code, a group whose source name does not resolve leaves
  the state as it was but for one pushed warning, and a target entry whose name does not
  resolve pushes one warning and the loop goes on with the remaining entries of the branch.
\<close>

theorem dangling_references:
  "(success (convertN8NToSim E w) \<longrightarrow>
      (\<exists>wf M os. workflow (convertN8NToSim E w) = Some wf \<and>
         M = id_map E (nodes w) 0 Map.empty \<and> os = outcomes M (connections w) \<and>
         (\<forall>e \<in> set (edges (state wf)).
             source e \<in> fst ` set (blocks (state wf)) \<and>
             target e \<in> fst ` set (blocks (state wf))) \<and>
         map (\<lambda>e. (source e, target e)) (edges (state wf)) =
           map (\<lambda>l. (fst l, snd (snd l))) (links os) \<and>
         (\<forall>l. l \<in> set (links os) \<longleftrightarrow>
            (\<exists>entry \<in> set (connections w).
               resolve M (fst entry) = Some (fst l) \<and>
               fst (snd l) < length (main_or_empty (snd entry)) \<and>
               (\<exists>c \<in> set (main_or_empty (snd entry) ! fst (snd l)).
                  resolve M (conn_node c) = Some (snd (snd l))))) \<and>
         (\<forall>name. name \<notin> node_name ` set (retained (nodes w)) \<longrightarrow> resolve M name = None) \<and>
         warning_list (convertN8NToSim E w) =
           concat (map (node_warnings E) (nodes w)) @ warns os)) \<and>
   (\<forall>st sourceName cd.
      resolve (nodeIdMap st) sourceName = None \<longrightarrow>
      convert_entry E sourceName cd st = Inr (push_warning (source_warning sourceName) st)) \<and>
   (\<forall>st sid branch c rest.
      resolve (nodeIdMap st) (conn_node c) = None \<longrightarrow>
      convert_group E sid branch (c # rest) st =
        convert_group E sid branch rest (push_warning (target_warning (conn_node c)) st))"
proof (intro conjI impI allI)
  assume ok: "success (convertN8NToSim E w)"
  let ?M = "id_map E (nodes w) 0 Map.empty"
  let ?os = "outcomes ?M (connections w)"
  from conversion_success [OF ok] obtain s1 wf where
    s1: "convert_nodes E (nodes w) 0 init_state = Inr s1"
    and wf: "workflow (convertN8NToSim E w) = Some wf"
    and b: "blocks (state wf) = st_blocks s1"
    and e: "edges (state wf) = edges_for E (st_blocks s1) (length (retained (nodes w))) (links ?os)"
    and ws: "warning_list (convertN8NToSim E w) =
               concat (map (node_warnings E) (nodes w)) @ warns ?os"
    by blast
  have pairs: "map (\<lambda>e. (source e, target e)) (edges (state wf)) =
           map (\<lambda>l. (fst l, snd (snd l))) (links ?os)"
    unfolding e by (rule edges_for_map)
  have ends: "\<forall>e \<in> set (edges (state wf)).
             source e \<in> fst ` set (blocks (state wf)) \<and>
             target e \<in> fst ` set (blocks (state wf))"
  proof
    fix ed assume "ed \<in> set (edges (state wf))"
    then have "(source ed, target ed) \<in> set (map (\<lambda>e. (source e, target e)) (edges (state wf)))"
      by (simp add: image_iff) blast
    then obtain l where l: "l \<in> set (links ?os)" "source ed = fst l" "target ed = snd (snd l)"
      unfolding pairs by auto
    show "source ed \<in> fst ` set (blocks (state wf)) \<and> target ed \<in> fst ` set (blocks (state wf))"
      using link_endpoints [OF s1 l(1)] l(2,3) b by simp
  qed
  have mem: "\<forall>l. l \<in> set (links ?os) \<longleftrightarrow>
            (\<exists>entry \<in> set (connections w).
               resolve ?M (fst entry) = Some (fst l) \<and>
               fst (snd l) < length (main_or_empty (snd entry)) \<and>
               (\<exists>c \<in> set (main_or_empty (snd entry) ! fst (snd l)).
                  resolve ?M (conn_node c) = Some (snd (snd l))))"
    by (intro allI) (rule links_outcomes)
  have unb: "\<forall>name. name \<notin> node_name ` set (retained (nodes w)) \<longrightarrow> resolve ?M name = None"
    by (simp add: id_map_unbound)
  show "\<exists>wf M os. workflow (convertN8NToSim E w) = Some wf \<and>
         M = id_map E (nodes w) 0 Map.empty \<and> os = outcomes M (connections w) \<and>
         (\<forall>e \<in> set (edges (state wf)).
             source e \<in> fst ` set (blocks (state wf)) \<and>
             target e \<in> fst ` set (blocks (state wf))) \<and>
         map (\<lambda>e. (source e, target e)) (edges (state wf)) =
           map (\<lambda>l. (fst l, snd (snd l))) (links os) \<and>
         (\<forall>l. l \<in> set (links os) \<longleftrightarrow>
            (\<exists>entry \<in> set (connections w).
               resolve M (fst entry) = Some (fst l) \<and>
               fst (snd l) < length (main_or_empty (snd entry)) \<and>
               (\<exists>c \<in> set (main_or_empty (snd entry) ! fst (snd l)).
                  resolve M (conn_node c) = Some (snd (snd l))))) \<and>
         (\<forall>name. name \<notin> node_name ` set (retained (nodes w)) \<longrightarrow> resolve M name = None) \<and>
         warning_list (convertN8NToSim E w) =
           concat (map (node_warnings E) (nodes w)) @ warns os"
    using wf ends pairs mem unb ws by blast
next
  fix st :: conv_state and sourceName cd
  assume "resolve (nodeIdMap st) sourceName = None"
  then show "convert_entry E sourceName cd st =
      Inr (push_warning (source_warning sourceName) st)"
    by (rule convert_entry_unresolved)
next
  fix st :: conv_state and sid branch and c :: N8NConnection and rest
  assume "resolve (nodeIdMap st) (conn_node c) = None"
  then show "convert_group E sid branch (c # rest) st =
        convert_group E sid branch rest (push_warning (target_warning (conn_node c)) st)"
    by (rule convert_group_unresolved)
qed

theorem dangling_references_witness:
  "success (convertN8NToSim demo_env demo_workflow) \<and>
   map (\<lambda>e. (source e, target e))
     (edges (state (the (workflow (convertN8NToSim demo_env demo_workflow))))) =
     [(''u'', ''uu''), (''u'', ''uuu''), (''uu'', ''uuu'')] \<and>
   map fst (blocks (state (the (workflow (convertN8NToSim demo_env demo_workflow))))) =
     [''u'', ''uu'', ''uuu''] \<and>
   warning_list (convertN8NToSim demo_env demo_workflow) =
     [unavailable_warning ''mystery'' ''B'' ''pkg.mystery'',
      target_warning ''Note'', source_warning ''Ghost''] \<and>
   resolve (nodeIdMap init_state) ''Ghost'' = None \<and>
   convert_entry demo_env ''Ghost'' \<lparr>main = Some [[demo_conn ''A'']]\<rparr> init_state =
     Inr (push_warning (source_warning ''Ghost'') init_state)"
proof -
  have ok: "success (convertN8NToSim demo_env demo_workflow)"
    by code_simp
  have 1: "map (\<lambda>e. (source e, target e))
     (edges (state (the (workflow (convertN8NToSim demo_env demo_workflow))))) =
     [(''u'', ''uu''), (''u'', ''uuu''), (''uu'', ''uuu'')]"
    by code_simp
  have 2: "map fst (blocks (state (the (workflow (convertN8NToSim demo_env demo_workflow))))) =
     [''u'', ''uu'', ''uuu'']"
    by code_simp
  have 3: "warning_list (convertN8NToSim demo_env demo_workflow) =
     [unavailable_warning ''mystery'' ''B'' ''pkg.mystery'',
      target_warning ''Note'', source_warning ''Ghost'']"
    by code_simp
  have 4: "resolve (nodeIdMap init_state) ''Ghost'' = None"
    by (simp add: init_state_def resolve_def)
  have 5: "convert_entry demo_env ''Ghost'' \<lparr>main = Some [[demo_conn ''A'']]\<rparr> init_state =
     Inr (push_warning (source_warning ''Ghost'') init_state)"
    using dangling_references [of demo_env demo_workflow] 4 by blast
  show ?thesis using ok 1 2 3 4 5 by blast
qed

lemma length_retained: "length (retained ns) = length ns - length (filter sticky ns)"
  using sum_length_filter_compl [of sticky ns] by (simp add: retained_def)

lemma demo_fresh: "fresh_ids demo_env"
  by (simp add: fresh_ids_def demo_env_def inj_def)

section \<open>The node count\<close>

text \<open>A sticky note's name is bound by Step 1 only if a kept node bears the same name.
  The names of the nodes of a workflow are distinct, so it is not.\<close>

lemma sticky_name_unbound:
  assumes d: "distinct (map node_name ns)" and n: "n \<in> set ns" and s: "sticky n"
  shows "node_name n \<notin> node_name ` set (retained ns)"
proof
  assume "node_name n \<in> node_name ` set (retained ns)"
  then obtain m where m: "m \<in> set ns" "\<not> sticky m" "node_name m = node_name n"
    by (auto simp: retained_def)
  from d have "inj_on node_name (set ns)" by (simp add: distinct_map)
  with m n have "m = n" by (auto dest: inj_onD)
  with m s show False by simp
qed

lemma warns_member: "Warned x \<in> set os \<Longrightarrow> x \<in> set (warns os)"
  by (induction os rule: warns.induct) auto

text \<open>
  C4. In a successful conversion with identifiers that do not repeat, the number of blocks
  is the number of source nodes minus the number of sticky notes. A sticky note is dropped
  silently: its step leaves the state as it was, so it adds no block, no warning and no
  binding to the name-to-id map. When the names of the nodes are distinct, as the
  specification assumes, the name of a sticky note is absent from the name-to-id map that
  Step 1 leaves, and a connection that references it is unresolved: in any state with
  that map, the code turns a group whose source name is the sticky note's into one pushed
  warning and nothing else, and a target entry with the sticky note's name into one pushed
  warning and no edge; and the warning of such a group is among the warnings of a
  successful result.
\<close>

theorem node_count:
  "(success (convertN8NToSim E w) \<and> inj (uuid_nth E) \<longrightarrow>
      (\<exists>wf. workflow (convertN8NToSim E w) = Some wf \<and>
         length (blocks (state wf)) = length (nodes w) - length (filter sticky (nodes w)) \<and>
         distinct (map fst (blocks (state wf))))) \<and>
   (\<forall>n i st. sticky n \<longrightarrow> convert_node E n i st = Inr st \<and> node_warnings E n = []) \<and>
   (distinct (map node_name (nodes w)) \<longrightarrow>
      (\<forall>n \<in> set (nodes w). sticky n \<longrightarrow>
         (\<forall>s1. convert_nodes E (nodes w) 0 init_state = Inr s1 \<longrightarrow>
            nodeIdMap s1 = id_map E (nodes w) 0 Map.empty) \<and>
         id_map E (nodes w) 0 Map.empty (node_name n) = None \<and>
         (\<forall>st cd. nodeIdMap st = id_map E (nodes w) 0 Map.empty \<longrightarrow>
            convert_entry E (node_name n) cd st =
              Inr (push_warning (source_warning (node_name n)) st)) \<and>
         (\<forall>st sid branch c.
            nodeIdMap st = id_map E (nodes w) 0 Map.empty \<and> conn_node c = node_name n \<longrightarrow>
            convert_connection E sid branch c st =
              Inr (push_warning (target_warning (node_name n)) st)) \<and>
         (\<forall>cd. group_outcomes (id_map E (nodes w) 0 Map.empty) (node_name n, cd) =
            [Warned (source_warning (node_name n))]) \<and>
         (\<forall>sid branch c. conn_node c = node_name n \<longrightarrow>
            target_outcome (id_map E (nodes w) 0 Map.empty) sid branch c =
              Warned (target_warning (node_name n))) \<and>
         (success (convertN8NToSim E w) \<longrightarrow>
            (\<forall>cd. (node_name n, cd) \<in> set (connections w) \<longrightarrow>
               source_warning (node_name n) \<in> set (warning_list (convertN8NToSim E w))))))"
proof (intro conjI impI allI ballI)
  assume a: "success (convertN8NToSim E w) \<and> inj (uuid_nth E)"
  from conversion_success [of E w] a obtain s1 wf where
    s1: "convert_nodes E (nodes w) 0 init_state = Inr s1"
    and wf: "workflow (convertN8NToSim E w) = Some wf"
    and b: "blocks (state wf) = st_blocks s1"
    by blast
  have "length (st_blocks s1) = length (retained (nodes w))"
    using step1_length [OF s1] a by blast
  then have len: "length (blocks (state wf)) = length (nodes w) - length (filter sticky (nodes w))"
    by (simp add: b length_retained)
  have "distinct (map fst (st_blocks s1))"
    using convert_nodes_distinct [OF s1] by (simp add: init_state_def)
  then show "\<exists>wf. workflow (convertN8NToSim E w) = Some wf \<and>
         length (blocks (state wf)) = length (nodes w) - length (filter sticky (nodes w)) \<and>
         distinct (map fst (blocks (state wf)))"
    using wf len b by auto
next
  fix n :: N8NNode and i and st :: conv_state
  assume "sticky n"
  then show "convert_node E n i st = Inr st" by (rule convert_node_sticky)
next
  fix n :: N8NNode and i and st :: conv_state
  assume "sticky n"
  then show "node_warnings E n = []" by (simp add: node_warnings_def)
next
  fix n s1
  assume "convert_nodes E (nodes w) 0 init_state = Inr s1"
  then show "nodeIdMap s1 = id_map E (nodes w) 0 Map.empty" by (rule step1_map(1))
next
  fix n
  assume "distinct (map node_name (nodes w))" "n \<in> set (nodes w)" "sticky n"
  then have "node_name n \<notin> node_name ` set (retained (nodes w))"
    by (rule sticky_name_unbound)
  then show "id_map E (nodes w) 0 Map.empty (node_name n) = None"
    by (simp add: id_map_other)
next
  fix n cd and st :: conv_state
  assume "distinct (map node_name (nodes w))" "n \<in> set (nodes w)" "sticky n"
  then have "node_name n \<notin> node_name ` set (retained (nodes w))"
    by (rule sticky_name_unbound)
  then have r: "resolve (id_map E (nodes w) 0 Map.empty) (node_name n) = None"
    by (rule id_map_unbound)
  assume "nodeIdMap st = id_map E (nodes w) 0 Map.empty"
  with r show "convert_entry E (node_name n) cd st =
              Inr (push_warning (source_warning (node_name n)) st)"
    by (simp add: convert_entry_unresolved)
next
  fix n sid branch and c :: N8NConnection and st :: conv_state
  assume "distinct (map node_name (nodes w))" "n \<in> set (nodes w)" "sticky n"
  then have "node_name n \<notin> node_name ` set (retained (nodes w))"
    by (rule sticky_name_unbound)
  then have r: "resolve (id_map E (nodes w) 0 Map.empty) (node_name n) = None"
    by (rule id_map_unbound)
  assume "nodeIdMap st = id_map E (nodes w) 0 Map.empty \<and> conn_node c = node_name n"
  with r convert_connection_unresolved [of st c E sid branch]
  show "convert_connection E sid branch c st =
              Inr (push_warning (target_warning (node_name n)) st)"
    by simp
next
  fix n cd
  assume "distinct (map node_name (nodes w))" "n \<in> set (nodes w)" "sticky n"
  then have "node_name n \<notin> node_name ` set (retained (nodes w))"
    by (rule sticky_name_unbound)
  then have "resolve (id_map E (nodes w) 0 Map.empty) (node_name n) = None"
    by (rule id_map_unbound)
  then show "group_outcomes (id_map E (nodes w) 0 Map.empty) (node_name n, cd) =
            [Warned (source_warning (node_name n))]"
    by (simp add: group_outcomes_def)
next
  fix n sid branch and c :: N8NConnection
  assume "distinct (map node_name (nodes w))" "n \<in> set (nodes w)" "sticky n"
  then have "node_name n \<notin> node_name ` set (retained (nodes w))"
    by (rule sticky_name_unbound)
  then have "resolve (id_map E (nodes w) 0 Map.empty) (node_name n) = None"
    by (rule id_map_unbound)
  moreover assume "conn_node c = node_name n"
  ultimately show "target_outcome (id_map E (nodes w) 0 Map.empty) sid branch c =
              Warned (target_warning (node_name n))"
    by (simp add: target_outcome_def)
next
  fix n cd
  let ?M = "id_map E (nodes w) 0 Map.empty"
  assume "distinct (map node_name (nodes w))" "n \<in> set (nodes w)" "sticky n"
  then have "node_name n \<notin> node_name ` set (retained (nodes w))"
    by (rule sticky_name_unbound)
  then have "resolve ?M (node_name n) = None"
    by (rule id_map_unbound)
  then have g: "group_outcomes ?M (node_name n, cd) = [Warned (source_warning (node_name n))]"
    by (simp add: group_outcomes_def)
  assume ok: "success (convertN8NToSim E w)" and m: "(node_name n, cd) \<in> set (connections w)"
  from m g have "Warned (source_warning (node_name n)) \<in> set (outcomes ?M (connections w))"
    by (force simp: outcomes_def)
  then have "source_warning (node_name n) \<in> set (warns (outcomes ?M (connections w)))"
    by (rule warns_member)
  moreover from conversion_success [OF ok] have
    "warning_list (convertN8NToSim E w) =
       concat (map (node_warnings E) (nodes w)) @ warns (outcomes ?M (connections w))"
    by blast
  ultimately show "source_warning (node_name n) \<in> set (warning_list (convertN8NToSim E w))"
    by simp
qed

theorem node_count_witness:
  "success (convertN8NToSim demo_env demo_workflow) \<and> inj (uuid_nth demo_env) \<and>
   length (nodes demo_workflow) = 4 \<and> length (filter sticky (nodes demo_workflow)) = 1 \<and>
   length (blocks (state (the (workflow (convertN8NToSim demo_env demo_workflow))))) = 3 \<and>
   distinct (map node_name (nodes demo_workflow)) \<and>
   demo_node ''Note'' ''n8n-nodes-base.stickyNote'' \<in> set (nodes demo_workflow) \<and>
   sticky (demo_node ''Note'' ''n8n-nodes-base.stickyNote'') \<and>
   id_map demo_env (nodes demo_workflow) 0 Map.empty ''Note'' = None \<and>
   target_outcome (id_map demo_env (nodes demo_workflow) 0 Map.empty) ''u'' 1 (demo_conn ''Note'') =
     Warned (target_warning ''Note'') \<and>
   target_warning ''Note'' \<in> set (warning_list (convertN8NToSim demo_env demo_workflow))"
proof -
  let ?n = "demo_node ''Note'' ''n8n-nodes-base.stickyNote''"
  have ok: "success (convertN8NToSim demo_env demo_workflow)"
    by code_simp
  have inj: "inj (uuid_nth demo_env)"
    using demo_fresh by (simp add: fresh_ids_def)
  have 1: "length (nodes demo_workflow) = 4 \<and> length (filter sticky (nodes demo_workflow)) = 1"
    by (simp add: demo_workflow_def demo_node_def sticky_def)
  from node_count [of demo_env demo_workflow] ok inj obtain wf where
    wf: "workflow (convertN8NToSim demo_env demo_workflow) = Some wf"
    and len: "length (blocks (state wf)) =
      length (nodes demo_workflow) - length (filter sticky (nodes demo_workflow))"
    by blast
  have 2: "length (blocks (state (the (workflow (convertN8NToSim demo_env demo_workflow))))) = 3"
    using wf len 1 by simp
  have 3: "distinct (map node_name (nodes demo_workflow))"
    by (simp add: demo_workflow_def demo_node_def)
  have 4: "?n \<in> set (nodes demo_workflow)"
    by (simp add: demo_workflow_def)
  have 5: "sticky ?n"
    by (simp add: demo_node_def sticky_def)
  have nm: "node_name ?n = ''Note''"
    by (simp add: demo_node_def)
  have cn: "conn_node (demo_conn ''Note'') = node_name ?n"
    by (simp add: demo_node_def demo_conn_def)
  from node_count [of demo_env demo_workflow] 3 4 5
  have 6: "id_map demo_env (nodes demo_workflow) 0 Map.empty (node_name ?n) = None"
    by blast
  from node_count [of demo_env demo_workflow] 3 4 5 cn
  have 7: "target_outcome (id_map demo_env (nodes demo_workflow) 0 Map.empty) ''u'' 1
             (demo_conn ''Note'') = Warned (target_warning (node_name ?n))"
    by blast
  have 8: "target_warning ''Note'' \<in> set (warning_list (convertN8NToSim demo_env demo_workflow))"
    by code_simp
  show ?thesis using ok inj 1 2 3 4 5 6 7 8 unfolding nm by blast
qed

lemma isTriggerNode_iff:
  "isTriggerNode t f \<longleftrightarrow> t \<in> set triggerTypes \<or> (\<exists>pre. t = pre @ ''Trigger'') \<or> f"
  by (simp add: isTriggerNode_def endsWith_iff)

section \<open>Trigger classification\<close>

text \<open>
  C8. \<open>isTriggerNode\<close> answers true exactly when the type is one of the known trigger
  types, or ends with \<open>Trigger\<close>, or the is-first-node flag is set; and in a successful
  conversion with identifiers that do not repeat, the block of the kept node at index
  \<open>length ns1\<close> of the node list has its trigger flag set exactly when the node's type
  is a known trigger type, or ends with \<open>Trigger\<close>, or the index is 0.
\<close>

theorem trigger_classification:
  "(isTriggerNode t f \<longleftrightarrow> t \<in> set triggerTypes \<or> (\<exists>pre. t = pre @ ''Trigger'') \<or> f) \<and>
   (success (convertN8NToSim E w) \<and> inj (uuid_nth E) \<and> nodes w = ns1 @ n # ns2 \<and> \<not> sticky n \<longrightarrow>
      (\<exists>wf b. workflow (convertN8NToSim E w) = Some wf \<and>
         map_of (blocks (state wf)) (uuid_nth E (length (retained ns1))) = Some b \<and>
         block_name b = node_name n \<and>
         (triggerMode b \<longleftrightarrow>
            node_type n \<in> set triggerTypes \<or> (\<exists>pre. node_type n = pre @ ''Trigger'') \<or>
            length ns1 = 0)))"
proof (intro conjI impI)
  show "isTriggerNode t f \<longleftrightarrow> t \<in> set triggerTypes \<or> (\<exists>pre. t = pre @ ''Trigger'') \<or> f"
    by (rule isTriggerNode_iff)
next
  assume a: "success (convertN8NToSim E w) \<and> inj (uuid_nth E) \<and> nodes w = ns1 @ n # ns2 \<and>
    \<not> sticky n"
  then obtain wf subs where wf: "workflow (convertN8NToSim E w) = Some wf"
    and b: "map_of (blocks (state wf)) (uuid_nth E (length (retained ns1))) =
             Some (block_for E n (length ns1) (uuid_nth E (length (retained ns1))) subs)"
    using produced_block [of E w ns1 n ns2] by blast
  let ?b = "block_for E n (length ns1) (uuid_nth E (length (retained ns1))) subs"
  have "block_name ?b = node_name n"
    by (simp add: block_for_def)
  moreover have "triggerMode ?b \<longleftrightarrow>
      node_type n \<in> set triggerTypes \<or> (\<exists>pre. node_type n = pre @ ''Trigger'') \<or> length ns1 = 0"
    by (simp add: block_for_def isTriggerNode_iff)
  ultimately show "\<exists>wf b. workflow (convertN8NToSim E w) = Some wf \<and>
         map_of (blocks (state wf)) (uuid_nth E (length (retained ns1))) = Some b \<and>
         block_name b = node_name n \<and>
         (triggerMode b \<longleftrightarrow>
            node_type n \<in> set triggerTypes \<or> (\<exists>pre. node_type n = pre @ ''Trigger'') \<or>
            length ns1 = 0)"
    using wf b by blast
qed

theorem trigger_classification_witness:
  "success (convertN8NToSim demo_env demo_workflow) \<and> inj (uuid_nth demo_env) \<and>
   nodes demo_workflow =
     [demo_node ''If'' ''n8n-nodes-base.if'', demo_node ''Note'' ''n8n-nodes-base.stickyNote''] @
     demo_node ''A'' ''n8n-nodes-base.set'' # [demo_node ''B'' ''pkg.mystery''] \<and>
   \<not> sticky (demo_node ''A'' ''n8n-nodes-base.set'') \<and>
   map (\<lambda>(k, b). (k, block_name b, triggerMode b))
     (blocks (state (the (workflow (convertN8NToSim demo_env demo_workflow))))) =
     [(''u'', ''If'', True), (''uu'', ''A'', False), (''uuu'', ''B'', False)] \<and>
   isTriggerNode ''n8n-nodes-base.slackTrigger'' False \<and>
   isTriggerNode ''custom.fooTrigger'' False \<and>
   \<not> isTriggerNode ''n8n-nodes-base.set'' False"
proof -
  have ok: "success (convertN8NToSim demo_env demo_workflow)"
    by code_simp
  have inj: "inj (uuid_nth demo_env)"
    using demo_fresh by (simp add: fresh_ids_def)
  have pos: "nodes demo_workflow =
     [demo_node ''If'' ''n8n-nodes-base.if'', demo_node ''Note'' ''n8n-nodes-base.stickyNote''] @
     demo_node ''A'' ''n8n-nodes-base.set'' # [demo_node ''B'' ''pkg.mystery'']"
    by (simp add: demo_workflow_def)
  have kept: "\<not> sticky (demo_node ''A'' ''n8n-nodes-base.set'')"
    by (simp add: sticky_def demo_node_def)
  have 1: "map (\<lambda>(k, b). (k, block_name b, triggerMode b))
     (blocks (state (the (workflow (convertN8NToSim demo_env demo_workflow))))) =
     [(''u'', ''If'', True), (''uu'', ''A'', False), (''uuu'', ''B'', False)]"
    by code_simp
  have 2: "isTriggerNode ''n8n-nodes-base.slackTrigger'' False"
    using trigger_classification [of "''n8n-nodes-base.slackTrigger''" False]
    by (simp add: triggerTypes_def)
  have 3: "isTriggerNode ''custom.fooTrigger'' False"
    by code_simp
  have 4: "\<not> isTriggerNode ''n8n-nodes-base.set'' False"
    by code_simp
  show ?thesis using ok inj pos kept 1 2 3 4 by blast
qed

lemma node_warnings_unavailable:
  "\<not> sticky n \<Longrightarrow> unavailable E n \<Longrightarrow>
     node_warnings E n =
       [unavailable_warning (fst (getSimBlockType (node_type n))) (node_name n) (node_type n)]"
  by (simp add: node_warnings_def)

lemma unavailable_warning_mentions:
  "\<exists>p q r. unavailable_warning t name ntype = p @ t @ q @ name @ r"
  unfolding unavailable_warning_def by (metis append.assoc)

section \<open>Unavailable target types\<close>

text \<open>
  C5. For a kept node whose resolved type fails the existence check: in a successful
  conversion with identifiers that do not repeat, the node's block has type \<open>function\<close>
  and height 143, and Step 1 issues for the node exactly one warning, which contains the
  unavailable type and the node's name; the node's step succeeds whenever the node has
  parameters, pushing exactly that warning; and a conversion of nodes that all have
  parameters succeeds whatever the existence check answers.
\<close>

theorem unavailable_type_fallback:
  "(success (convertN8NToSim E w) \<and> inj (uuid_nth E) \<and> nodes w = ns1 @ n # ns2 \<and>
    \<not> sticky n \<and> unavailable E n \<longrightarrow>
      (\<exists>wf b msg. workflow (convertN8NToSim E w) = Some wf \<and>
         map_of (blocks (state wf)) (uuid_nth E (length (retained ns1))) = Some b \<and>
         block_name b = node_name n \<and> block_type b = ''function'' \<and> height b = 143 \<and>
         msg = unavailable_warning (fst (getSimBlockType (node_type n))) (node_name n)
                 (node_type n) \<and>
         node_warnings E n = [msg] \<and>
         (\<exists>p q r. msg = p @ fst (getSimBlockType (node_type n)) @ q @ node_name n @ r) \<and>
         warning_list (convertN8NToSim E w) =
           concat (map (node_warnings E) ns1) @ [msg] @ concat (map (node_warnings E) ns2) @
           warns (outcomes (id_map E (nodes w) 0 Map.empty) (connections w)))) \<and>
   (\<not> sticky n \<and> unavailable E n \<and> node_parameters n \<noteq> None \<longrightarrow>
      (\<exists>st'. convert_node E n i st = Inr st' \<and>
         st_warnings st' =
           st_warnings st @
           [unavailable_warning (fst (getSimBlockType (node_type n))) (node_name n)
              (node_type n)])) \<and>
   ((\<forall>m \<in> set (nodes w). node_parameters m \<noteq> None) \<longrightarrow> success (convertN8NToSim E w))"
proof (intro conjI impI)
  assume a: "success (convertN8NToSim E w) \<and> inj (uuid_nth E) \<and> nodes w = ns1 @ n # ns2 \<and>
    \<not> sticky n \<and> unavailable E n"
  let ?msg = "unavailable_warning (fst (getSimBlockType (node_type n))) (node_name n) (node_type n)"
  from a obtain wf subs where wf: "workflow (convertN8NToSim E w) = Some wf"
    and b: "map_of (blocks (state wf)) (uuid_nth E (length (retained ns1))) =
             Some (block_for E n (length ns1) (uuid_nth E (length (retained ns1))) subs)"
    using produced_block [of E w ns1 n ns2] by blast
  let ?b = "block_for E n (length ns1) (uuid_nth E (length (retained ns1))) subs"
  have f: "block_name ?b = node_name n \<and> block_type ?b = ''function'' \<and> height ?b = 143"
    using a by (simp add: block_for_def final_type_def)
  have nw: "node_warnings E n = [?msg]"
    using a by (simp add: node_warnings_unavailable)
  have "warning_list (convertN8NToSim E w) =
          concat (map (node_warnings E) (nodes w)) @
          warns (outcomes (id_map E (nodes w) 0 Map.empty) (connections w))"
    using conversion_success [of E w] a by auto
  then have ws: "warning_list (convertN8NToSim E w) =
           concat (map (node_warnings E) ns1) @ [?msg] @ concat (map (node_warnings E) ns2) @
           warns (outcomes (id_map E (nodes w) 0 Map.empty) (connections w))"
    using a nw by simp
  have m: "\<exists>p q r. ?msg = p @ fst (getSimBlockType (node_type n)) @ q @ node_name n @ r"
    by (rule unavailable_warning_mentions)
  show "\<exists>wf b msg. workflow (convertN8NToSim E w) = Some wf \<and>
         map_of (blocks (state wf)) (uuid_nth E (length (retained ns1))) = Some b \<and>
         block_name b = node_name n \<and> block_type b = ''function'' \<and> height b = 143 \<and>
         msg = unavailable_warning (fst (getSimBlockType (node_type n))) (node_name n)
                 (node_type n) \<and>
         node_warnings E n = [msg] \<and>
         (\<exists>p q r. msg = p @ fst (getSimBlockType (node_type n)) @ q @ node_name n @ r) \<and>
         warning_list (convertN8NToSim E w) =
           concat (map (node_warnings E) ns1) @ [msg] @ concat (map (node_warnings E) ns2) @
           warns (outcomes (id_map E (nodes w) 0 Map.empty) (connections w))"
    by (rule exI [of _ wf], rule exI [of _ ?b], rule exI [of _ ?msg])
      (use wf b f nw ws m in \<open>intro conjI; (simp; fail)?\<close>)
next
  assume a: "\<not> sticky n \<and> unavailable E n \<and> node_parameters n \<noteq> None"
  then obtain st' where st': "convert_node E n i st = Inr st'"
    using convert_node_total [of n E i st] by blast
  have "st_warnings st' = st_warnings st @ node_warnings E n"
    by (rule convert_node_fields(3) [OF st'])
  then show "\<exists>st'. convert_node E n i st = Inr st' \<and>
         st_warnings st' =
           st_warnings st @
           [unavailable_warning (fst (getSimBlockType (node_type n))) (node_name n)
              (node_type n)]"
    using st' a by (simp add: node_warnings_unavailable)
next
  assume "\<forall>m \<in> set (nodes w). node_parameters m \<noteq> None"
  then show "success (convertN8NToSim E w)"
    by (rule conversion_total)
qed

theorem unavailable_type_fallback_witness:
  "success (convertN8NToSim demo_env demo_workflow) \<and> inj (uuid_nth demo_env) \<and>
   nodes demo_workflow =
     [demo_node ''If'' ''n8n-nodes-base.if'', demo_node ''Note'' ''n8n-nodes-base.stickyNote'',
      demo_node ''A'' ''n8n-nodes-base.set''] @ demo_node ''B'' ''pkg.mystery'' # [] \<and>
   \<not> sticky (demo_node ''B'' ''pkg.mystery'') \<and> unavailable demo_env (demo_node ''B'' ''pkg.mystery'') \<and>
   node_parameters (demo_node ''B'' ''pkg.mystery'') \<noteq> None \<and>
   map (\<lambda>(k, b). (block_name b, block_type b, height b))
     (blocks (state (the (workflow (convertN8NToSim demo_env demo_workflow))))) =
     [(''If'', ''condition'', 259), (''A'', ''function'', 143), (''B'', ''function'', 143)] \<and>
   node_warnings demo_env (demo_node ''B'' ''pkg.mystery'') =
     [unavailable_warning ''mystery'' ''B'' ''pkg.mystery'']"
proof -
  have ok: "success (convertN8NToSim demo_env demo_workflow)"
    by code_simp
  have inj: "inj (uuid_nth demo_env)"
    using demo_fresh by (simp add: fresh_ids_def)
  have pos: "nodes demo_workflow =
     [demo_node ''If'' ''n8n-nodes-base.if'', demo_node ''Note'' ''n8n-nodes-base.stickyNote'',
      demo_node ''A'' ''n8n-nodes-base.set''] @ demo_node ''B'' ''pkg.mystery'' # []"
    by (simp add: demo_workflow_def)
  have kept: "\<not> sticky (demo_node ''B'' ''pkg.mystery'')"
    by (simp add: sticky_def demo_node_def)
  have un: "unavailable demo_env (demo_node ''B'' ''pkg.mystery'')"
    by code_simp
  have ps: "node_parameters (demo_node ''B'' ''pkg.mystery'') \<noteq> None"
    by (simp add: demo_node_def)
  have ty: "fst (getSimBlockType (node_type (demo_node ''B'' ''pkg.mystery''))) = ''mystery''"
    by code_simp
  have 1: "map (\<lambda>(k, b). (block_name b, block_type b, height b))
     (blocks (state (the (workflow (convertN8NToSim demo_env demo_workflow))))) =
     [(''If'', ''condition'', 259), (''A'', ''function'', 143), (''B'', ''function'', 143)]"
    by code_simp
  note th = unavailable_type_fallback [where E = demo_env and n = "demo_node ''B'' ''pkg.mystery''"
      and i = 0 and st = init_state, THEN conjunct2, THEN conjunct1]
  have 3: "\<exists>st'. convert_node demo_env (demo_node ''B'' ''pkg.mystery'') 0 init_state = Inr st' \<and>
         st_warnings st' =
           st_warnings init_state @
           [unavailable_warning (fst (getSimBlockType (node_type (demo_node ''B'' ''pkg.mystery''))))
              (node_name (demo_node ''B'' ''pkg.mystery''))
              (node_type (demo_node ''B'' ''pkg.mystery''))]"
    using th kept un ps by blast
  have 2: "node_warnings demo_env (demo_node ''B'' ''pkg.mystery'') =
     [unavailable_warning ''mystery'' ''B'' ''pkg.mystery'']"
    using kept un ty by (simp add: node_warnings_def) (simp add: demo_node_def)
  show ?thesis using ok inj pos kept un ps 1 2 3 by blast
qed

lemma fresh_resolve: "fresh_ids E \<Longrightarrow> resolve (id_map E ns k Map.empty) name = id_map E ns k Map.empty name"
proof (cases "id_map E ns k Map.empty name")
  case None
  then show ?thesis by (simp add: resolve_def)
next
  case (Some i)
  assume f: "fresh_ids E"
  from id_map_range [OF Some] have "i \<in> uuid_nth E ` {k ..< k + length (retained ns)}"
    by simp
  then have "i \<noteq> []" using f by (auto simp: fresh_ids_def)
  then show ?thesis using Some by (simp add: resolve_def)
qed

section \<open>Nodes that share a name\<close>

text \<open>
  C10. In a successful conversion with fresh identifiers: there is one block per kept
  node, whatever the names; every kept node has a block of its own, stored under the
  identifier generated for it and carrying the node's name; and if \<open>n\<close> is the last kept
  node that bears its name, the name-to-id map resolves that name to the identifier of
  the block of \<open>n\<close>, so a group with that source name links from that block, and a target
  entry with that name links to that block. The edges are the links, as C3 states.
\<close>

theorem shared_names:
  assumes ok: "success (convertN8NToSim E w)" and fresh: "fresh_ids E"
    and pos: "nodes w = ns1 @ n # ns2" and kept: "\<not> sticky n"
    and last: "node_name n \<notin> node_name ` set (retained ns2)"
  shows "\<exists>wf M b. workflow (convertN8NToSim E w) = Some wf \<and>
           M = id_map E (nodes w) 0 Map.empty \<and>
           length (blocks (state wf)) = length (retained (nodes w)) \<and>
           (\<forall>ms1 m ms2. nodes w = ms1 @ m # ms2 \<and> \<not> sticky m \<longrightarrow>
              (\<exists>bm. map_of (blocks (state wf)) (uuid_nth E (length (retained ms1))) = Some bm \<and>
                 block_id bm = uuid_nth E (length (retained ms1)) \<and>
                 block_name bm = node_name m \<and> block_position bm = node_position m)) \<and>
           resolve M (node_name n) = Some (uuid_nth E (length (retained ns1))) \<and>
           map_of (blocks (state wf)) (uuid_nth E (length (retained ns1))) = Some b \<and>
           block_name b = node_name n \<and> block_position b = node_position n \<and>
           block_type b = fst (final_type E n) \<and>
           (\<forall>cd. group_outcomes M (node_name n, cd) =
              branch_outcomes M (uuid_nth E (length (retained ns1))) 0 (main_or_empty cd)) \<and>
           (\<forall>sid branch c. conn_node c = node_name n \<longrightarrow>
              target_outcome M sid branch c =
                Linked sid branch (uuid_nth E (length (retained ns1)))) \<and>
           map (\<lambda>e. (source e, target e)) (edges (state wf)) =
             map (\<lambda>l. (fst l, snd (snd l))) (links (outcomes M (connections w)))"
proof -
  let ?M = "id_map E (nodes w) 0 Map.empty"
  let ?id = "uuid_nth E (length (retained ns1))"
  have inj: "inj (uuid_nth E)" using fresh by (simp add: fresh_ids_def)
  from conversion_success [OF ok] obtain s1 wf where
    s1: "convert_nodes E (nodes w) 0 init_state = Inr s1"
    and wf: "workflow (convertN8NToSim E w) = Some wf"
    and b: "blocks (state wf) = st_blocks s1"
    and e: "edges (state wf) = edges_for E (st_blocks s1) (length (retained (nodes w)))
              (links (outcomes ?M (connections w)))"
    by blast
  have len: "length (blocks (state wf)) = length (retained (nodes w))"
    using step1_length [OF s1 inj] b by simp
  have own: "\<exists>bm. map_of (blocks (state wf)) (uuid_nth E (length (retained ms1))) = Some bm \<and>
                 block_id bm = uuid_nth E (length (retained ms1)) \<and>
                 block_name bm = node_name m \<and> block_position bm = node_position m"
    if "nodes w = ms1 @ m # ms2 \<and> \<not> sticky m" for ms1 m ms2
  proof -
    from that s1 have r: "convert_nodes E (ms1 @ m # ms2) 0 init_state = Inr s1" by simp
    from step1_block [OF r _ inj] that obtain subs where
      "map_of (st_blocks s1) (uuid_nth E (length (retained ms1))) =
         Some (block_for E m (length ms1) (uuid_nth E (length (retained ms1))) subs)"
      by blast
    then show ?thesis by (simp add: b block_for_def)
  qed
  from s1 pos have r: "convert_nodes E (ns1 @ n # ns2) 0 init_state = Inr s1" by simp
  from step1_block [OF r kept inj] obtain subs where
    blk: "map_of (st_blocks s1) ?id = Some (block_for E n (length ns1) ?id subs)"
    by blast
  let ?b = "block_for E n (length ns1) ?id subs"
  have bf: "block_name ?b = node_name n \<and> block_position ?b = node_position n \<and>
      block_type ?b = fst (final_type E n)"
    by (simp add: block_for_def)
  have "?M (node_name n) = Some ?id"
    using id_map_last [OF kept last, of E ns1 0 Map.empty] by (simp add: pos)
  then have res: "resolve ?M (node_name n) = Some ?id"
    using fresh_resolve [OF fresh, of "nodes w" 0 "node_name n"] by simp
  have grp: "\<forall>cd. group_outcomes ?M (node_name n, cd) =
              branch_outcomes ?M ?id 0 (main_or_empty cd)"
    by (simp add: group_outcomes_def res)
  have tgt: "\<forall>sid branch c. conn_node c = node_name n \<longrightarrow>
              target_outcome ?M sid branch c = Linked sid branch ?id"
    by (simp add: target_outcome_def res)
  have pairs: "map (\<lambda>e. (source e, target e)) (edges (state wf)) =
             map (\<lambda>l. (fst l, snd (snd l))) (links (outcomes ?M (connections w)))"
    unfolding e by (rule edges_for_map)
  have blk': "map_of (blocks (state wf)) ?id = Some ?b"
    using blk b by simp
  show ?thesis
    apply (rule exI [of _ wf], rule exI [of _ ?M], rule exI [of _ ?b])
    using wf len own res blk' bf grp tgt pairs
    apply (intro conjI)
               apply (simp; fail)+
    done
qed

theorem shared_names_witness:
  "success (convertN8NToSim demo_env dup_workflow) \<and> fresh_ids demo_env \<and>
   nodes dup_workflow =
     [demo_node ''Dup'' ''n8n-nodes-base.set''] @ demo_node ''Dup'' ''n8n-nodes-base.if'' #
     [demo_node ''End'' ''n8n-nodes-base.set''] \<and>
   \<not> sticky (demo_node ''Dup'' ''n8n-nodes-base.if'') \<and>
   node_name (demo_node ''Dup'' ''n8n-nodes-base.if'') \<notin>
     node_name ` set (retained [demo_node ''End'' ''n8n-nodes-base.set'']) \<and>
   map (\<lambda>(k, b). (k, block_name b, block_type b))
     (blocks (state (the (workflow (convertN8NToSim demo_env dup_workflow))))) =
     [(''u'', ''Dup'', ''function''), (''uu'', ''Dup'', ''condition''), (''uuu'', ''End'', ''function'')] \<and>
   map (\<lambda>e. (source e, sourceHandle e, target e))
     (edges (state (the (workflow (convertN8NToSim demo_env dup_workflow))))) =
     [(''uu'', ''condition-cond-true'', ''uuu''), (''uuu'', ''source'', ''uu'')] \<and>
   length (blocks (state (the (workflow (convertN8NToSim demo_env dup_workflow))))) = 3"
proof -
  have ok: "success (convertN8NToSim demo_env dup_workflow)"
    by code_simp
  have pos: "nodes dup_workflow =
     [demo_node ''Dup'' ''n8n-nodes-base.set''] @ demo_node ''Dup'' ''n8n-nodes-base.if'' #
     [demo_node ''End'' ''n8n-nodes-base.set'']"
    by (simp add: dup_workflow_def)
  have kept: "\<not> sticky (demo_node ''Dup'' ''n8n-nodes-base.if'')"
    by (simp add: sticky_def demo_node_def)
  have last: "node_name (demo_node ''Dup'' ''n8n-nodes-base.if'') \<notin>
     node_name ` set (retained [demo_node ''End'' ''n8n-nodes-base.set''])"
    by (simp add: retained_def sticky_def demo_node_def)
  have 1: "map (\<lambda>(k, b). (k, block_name b, block_type b))
     (blocks (state (the (workflow (convertN8NToSim demo_env dup_workflow))))) =
     [(''u'', ''Dup'', ''function''), (''uu'', ''Dup'', ''condition''), (''uuu'', ''End'', ''function'')]"
    by code_simp
  have 2: "map (\<lambda>e. (source e, sourceHandle e, target e))
     (edges (state (the (workflow (convertN8NToSim demo_env dup_workflow))))) =
     [(''uu'', ''condition-cond-true'', ''uuu''), (''uuu'', ''source'', ''uu'')]"
    by code_simp
  have r: "length (retained (nodes dup_workflow)) = 3"
    by (simp add: dup_workflow_def retained_def sticky_def demo_node_def)
  from shared_names [OF ok demo_fresh pos kept last] obtain wf where
    "workflow (convertN8NToSim demo_env dup_workflow) = Some wf"
    "length (blocks (state wf)) = length (retained (nodes dup_workflow))"
    by blast
  then have 3: "length (blocks (state (the (workflow (convertN8NToSim demo_env dup_workflow))))) = 3"
    using r by simp
  show ?thesis using ok demo_fresh pos kept last 1 2 3 by blast
qed

lemma update_fresh: "k \<notin> fst ` set al \<Longrightarrow> AList.update k v al = al @ [(k, v)]"
  by (induction al) auto

lemma long_string_iff: "long_string v \<longleftrightarrow> (\<exists>s. v = JStr s \<and> length s > 100)"
  by (cases v) simp_all

lemma produced_subBlocks:
  assumes ok: "success (convertN8NToSim E w)" and inj: "inj (uuid_nth E)"
    and pos: "nodes w = ns1 @ n # ns2" and kept: "\<not> sticky n"
  shows "\<exists>wf b. workflow (convertN8NToSim E w) = Some wf \<and>
           map_of (blocks (state wf)) (uuid_nth E (length (retained ns1))) = Some b \<and>
           block_name b = node_name n \<and> block_type b = fst (final_type E n) \<and>
           convertParametersToSubBlocks E n (fst (final_type E n)) = Inr (subBlocks b)"
proof -
  from produced_block [OF ok inj pos kept] obtain wf subs where
    wf: "workflow (convertN8NToSim E w) = Some wf"
    and subs: "convertParametersToSubBlocks E n (fst (final_type E n)) = Inr subs"
    and b: "map_of (blocks (state wf)) (uuid_nth E (length (retained ns1))) =
             Some (block_for E n (length ns1) (uuid_nth E (length (retained ns1))) subs)"
    by blast
  let ?b = "block_for E n (length ns1) (uuid_nth E (length (retained ns1))) subs"
  have "block_name ?b = node_name n \<and> block_type ?b = fst (final_type E n) \<and> subBlocks ?b = subs"
    by (simp add: block_for_def)
  then show ?thesis using wf subs b by auto
qed


section \<open>Blocks without declared slots\<close>

text \<open>The fallback appends one sub-block for each parameter whose key is not
  \<open>__proto__\<close>, the keys of an object being distinct.\<close>

lemma generic_loop_distinct:
  "distinct (map fst ps) \<Longrightarrow> fst ` set ps \<inter> fst ` set acc = {} \<Longrightarrow>
   generic_loop ps acc =
     acc @ map (\<lambda>(k, v). (k, mk_subBlock k (if long_string v then ''long-input''
                                              else ''short-input'') (Json v)))
             (filter (\<lambda>(k, v). k \<noteq> ''__proto__'') ps)"
proof (induction ps arbitrary: acc)
  case Nil
  show ?case by simp
next
  case (Cons kv ps)
  obtain k v where kv: "kv = (k, v)" by (cases kv)
  let ?f = "\<lambda>(k, v). (k, mk_subBlock k (if long_string v then ''long-input''
                                              else ''short-input'') (Json v))"
  let ?sb = "mk_subBlock k (if long_string v then ''long-input'' else ''short-input'') (Json v)"
  have fresh: "k \<notin> fst ` set acc"
    using Cons.prems(2) kv by auto
  have d: "distinct (map fst ps)" and nk: "k \<notin> fst ` set ps"
    using Cons.prems(1) kv by auto
  show ?case
  proof (cases "k = ''__proto__''")
    case True
    have disj: "fst ` set ps \<inter> fst ` set acc = {}"
      using Cons.prems(2) by auto
    have "generic_loop (kv # ps) acc = generic_loop ps acc"
      by (simp add: kv True set_property_def)
    also have "\<dots> = acc @ map ?f (filter (\<lambda>(k, v). k \<noteq> ''__proto__'') ps)"
      by (rule Cons.IH [OF d disj])
    finally show ?thesis by (simp add: kv True)
  next
    case False
    have disj: "fst ` set ps \<inter> fst ` set (acc @ [(k, ?sb)]) = {}"
      using Cons.prems(2) nk kv by auto
    have "generic_loop (kv # ps) acc = generic_loop ps (acc @ [(k, ?sb)])"
      using False by (simp add: kv set_property_def update_fresh [OF fresh])
    also have "\<dots> = (acc @ [(k, ?sb)]) @ map ?f (filter (\<lambda>(k, v). k \<noteq> ''__proto__'') ps)"
      by (rule Cons.IH [OF d disj])
    finally show ?thesis using False by (simp add: kv)
  qed
qed

lemma generic_subBlocks_distinct:
  assumes "node_parameters n = Some ps" "distinct (map fst ps)"
  shows "generic_subBlocks n =
     Inr (map (\<lambda>(k, v). (k, mk_subBlock k (if long_string v then ''long-input''
                                            else ''short-input'') (Json v)))
            (filter (\<lambda>(k, v). k \<noteq> ''__proto__'') ps))"
  using generic_loop_distinct [OF assms(2), of "[]"] assms(1)
  by (simp add: generic_subBlocks_def)

text \<open>
  C7: the code departs from the claim on a parameter named \<open>__proto__\<close>. The fallback
  stores each parameter with \<open>subBlocks[key] = {...}\<close>, and on a plain object the
  assignment to \<open>__proto__\<close> sets the prototype and adds no property. So the node with
  the three parameters \<open>url\<close>, \<open>__proto__\<close> and \<open>retries\<close>, whose resolved type has no
  sub-block definitions, gets a block with two sub-blocks, where the claim says one per
  parameter key.
\<close>

theorem generic_proto_parameter:
  "getBlock registry_env (fst (final_type registry_env proto_node)) = None \<and>
   node_parameters proto_node =
     Some [(''url'', JStr ''https://example.org''), (''__proto__'', JStr ''x''),
           (''retries'', JNum 3)] \<and>
   convertParametersToSubBlocks registry_env proto_node (fst (final_type registry_env proto_node)) =
     Inr [(''url'', \<lparr>sub_id = ''url'', sub_type = ''short-input'',
                     sub_value = Json (JStr ''https://example.org'')\<rparr>),
          (''retries'', \<lparr>sub_id = ''retries'', sub_type = ''short-input'',
                         sub_value = Json (JNum 3)\<rparr>)] \<and>
   success (convertN8NToSim registry_env proto_workflow) \<and>
   map (\<lambda>(i, b). (block_name b, map fst (subBlocks b)))
     (blocks (state (the (workflow (convertN8NToSim registry_env proto_workflow))))) =
     [(''Fetch'', [''url'', ''retries''])]"
proof -
  have 1: "getBlock registry_env (fst (final_type registry_env proto_node)) = None"
    by code_simp
  have 2: "node_parameters proto_node =
     Some [(''url'', JStr ''https://example.org''), (''__proto__'', JStr ''x''),
           (''retries'', JNum 3)]"
    by (simp add: proto_node_def param_node_def)
  have 3: "convertParametersToSubBlocks registry_env proto_node
       (fst (final_type registry_env proto_node)) =
     Inr [(''url'', \<lparr>sub_id = ''url'', sub_type = ''short-input'',
                     sub_value = Json (JStr ''https://example.org'')\<rparr>),
          (''retries'', \<lparr>sub_id = ''retries'', sub_type = ''short-input'',
                         sub_value = Json (JNum 3)\<rparr>)]"
    by code_simp
  have 4: "success (convertN8NToSim registry_env proto_workflow)"
    by code_simp
  have 5: "map (\<lambda>(i, b). (block_name b, map fst (subBlocks b)))
     (blocks (state (the (workflow (convertN8NToSim registry_env proto_workflow))))) =
     [(''Fetch'', [''url'', ''retries''])]"
    by code_simp
  show ?thesis using 1 2 3 4 5 by blast
qed

theorem generic_proto_parameter_witness:
  "length (the (node_parameters proto_node)) = 3 \<and>
   (\<exists>subs. convertParametersToSubBlocks registry_env proto_node
              (fst (final_type registry_env proto_node)) = Inr subs \<and>
      length subs = 2 \<and> ''__proto__'' \<notin> fst ` set subs)"
  using generic_proto_parameter by simp

text \<open>
  On every other input the code does what the claim says. When the registry has no
  sub-block definitions for a type (no entry, or an entry without a \<open>subBlocks\<close> list),
  a node whose parameters have no key \<open>__proto__\<close> is given one sub-block per parameter:
  its id is the key, its value is the parameter's value, and its type is \<open>long-input\<close>
  exactly when the value is a string of more than 100 characters and \<open>short-input\<close>
  otherwise. In general the sub-blocks are those of the parameters other than
  \<open>__proto__\<close>. The parameters are an object, so their keys are distinct.
\<close>

lemma generic_parameters:
  assumes none: "getBlock E t = None \<or> (\<exists>bd. getBlock E t = Some bd \<and> cfg_subBlocks bd = None)"
    and ps: "node_parameters n = Some ps" and d: "distinct (map fst ps)"
  shows "convertParametersToSubBlocks E n t =
        Inr (map (\<lambda>(k, v). (k, \<lparr>sub_id = k,
                                  sub_type = (if (\<exists>s. v = JStr s \<and> length s > 100)
                                              then ''long-input'' else ''short-input''),
                                  sub_value = Json v\<rparr>))
               (filter (\<lambda>(k, v). k \<noteq> ''__proto__'') ps))"
proof -
  have "convertParametersToSubBlocks E n t = generic_subBlocks n"
    using none by (auto simp: convertParametersToSubBlocks_def)
  then show ?thesis
    by (simp add: generic_subBlocks_distinct [OF ps d] mk_subBlock_def long_string_iff)
qed

lemma generic_parameters_block:
  assumes ok: "success (convertN8NToSim E w)" and inj: "inj (uuid_nth E)"
    and pos: "nodes w = ns1 @ n # ns2" and kept: "\<not> sticky n"
    and none: "getBlock E (fst (final_type E n)) = None \<or>
       (\<exists>bd. getBlock E (fst (final_type E n)) = Some bd \<and> cfg_subBlocks bd = None)"
    and ps: "node_parameters n = Some ps" and d: "distinct (map fst ps)"
    and np: "''__proto__'' \<notin> fst ` set ps"
  shows "\<exists>wf b. workflow (convertN8NToSim E w) = Some wf \<and>
         map_of (blocks (state wf)) (uuid_nth E (length (retained ns1))) = Some b \<and>
         block_name b = node_name n \<and>
         subBlocks b =
           map (\<lambda>(k, v). (k, \<lparr>sub_id = k,
                                sub_type = (if (\<exists>s. v = JStr s \<and> length s > 100)
                                            then ''long-input'' else ''short-input''),
                                sub_value = Json v\<rparr>)) ps \<and>
         length (subBlocks b) = length ps"
proof -
  from produced_subBlocks [OF ok inj pos kept] obtain wf b where
    wf: "workflow (convertN8NToSim E w) = Some wf"
    and b: "map_of (blocks (state wf)) (uuid_nth E (length (retained ns1))) = Some b"
    and nm: "block_name b = node_name n"
    and sb: "convertParametersToSubBlocks E n (fst (final_type E n)) = Inr (subBlocks b)"
    by blast
  have f: "filter (\<lambda>(k, v). k \<noteq> ''__proto__'') ps = ps"
    using np by (force simp: filter_id_conv)
  have eq: "subBlocks b =
           map (\<lambda>(k, v). (k, \<lparr>sub_id = k,
                                sub_type = (if (\<exists>s. v = JStr s \<and> length s > 100)
                                            then ''long-input'' else ''short-input''),
                                sub_value = Json v\<rparr>)) ps"
    using generic_parameters [OF none ps d] sb by (simp add: f)
  then have "length (subBlocks b) = length ps" by simp
  then show ?thesis using wf b nm eq by blast
qed

section \<open>Slot values\<close>

lemma read_property_own:
  "k \<notin> set prototype_names \<Longrightarrow> read_property ps k = parameter ps k"
  by (simp add: read_property_def parameter_def split: option.splits)

lemma read_property_fixed:
  "read_property ps ''jsCode'' = parameter ps ''jsCode''"
  "read_property ps ''functionCode'' = parameter ps ''functionCode''"
  "read_property ps ''code'' = parameter ps ''code''"
  "read_property ps ''script'' = parameter ps ''script''"
  "read_property ps ''text'' = parameter ps ''text''"
  "read_property ps ''body'' = parameter ps ''body''"
  "read_property ps ''message'' = parameter ps ''message''"
  "read_property ps ''sendTo'' = parameter ps ''sendTo''"
  "read_property ps ''conditions'' = parameter ps ''conditions''"
  by (simp_all add: read_property_own prototype_names_def)

lemma truthy_any_defined: "truthy_any v \<Longrightarrow> v \<noteq> Undefined"
  by (cases v) simp_all

lemma parameter_not_inherited: "parameter ps k \<noteq> Inherited m"
  by (simp add: parameter_def split: option.splits)

lemma slot_value_exact:
  "map_of ps (cfg_id d) = Some v \<Longrightarrow> slot_value E ps t d = Json v"
  by (simp add: slot_value_def read_property_def Let_def)

lemma slot_value_inherited:
  "inherited_id ps d \<Longrightarrow> slot_value E ps t d = Inherited (cfg_id d)"
  by (simp add: slot_value_def read_property_def inherited_id_def Let_def)

lemma slot_value_spec_exact:
  "map_of ps (cfg_id d) = Some v \<Longrightarrow> slot_value_spec E ps t d = Json v"
  by (simp add: slot_value_spec_def exact_key_def)

lemma slot_value_code:
  assumes "map_of ps (cfg_id d) = None" "cfg_id d = ''code''"
  shows "slot_value E ps t d =
    (case first_truthy [parameter ps ''jsCode'', parameter ps ''functionCode'',
                        parameter ps ''script''] of
       Some v \<Rightarrow> v | None \<Rightarrow> Json JNull)"
proof -
  have c: "parameter ps ''code'' = Undefined"
    using assms by (simp add: parameter_def)
  have "read_property ps (cfg_id d) = Undefined"
    using assms by (simp add: read_property_fixed c)
  then show ?thesis
    using assms(2) by (simp add: slot_value_def Let_def read_property_fixed c js_or_def)
qed

lemma slot_value_spec_code:
  assumes "map_of ps (cfg_id d) = None" "cfg_id d = ''code''"
  shows "slot_value_spec E ps t d =
    (case first_truthy [parameter ps ''jsCode'', parameter ps ''functionCode'',
                        parameter ps ''script''] of
       Some v \<Rightarrow> v
     | None \<Rightarrow> (case declared_default d of Some v \<Rightarrow> v | None \<Rightarrow> Json JNull))"
proof -
  have c: "parameter ps ''code'' = Undefined"
    using assms by (simp add: parameter_def)
  show ?thesis
    using assms
    by (simp add: slot_value_spec_def exact_key_def code_alternates_spec_def c
        message_alternates_def to_alternate_def language_default_def condition_serialized_def
        split: option.splits)
qed

lemma slot_value_other:
  assumes "map_of ps (cfg_id d) = None" "cfg_id d \<noteq> ''code''" "cfg_id d \<notin> set prototype_names"
  shows "slot_value E ps t d = slot_value_spec E ps t d"
proof -
  have u: "read_property ps (cfg_id d) = Undefined"
    using assms by (simp add: read_property_def)
  have ex: "exact_key ps d = None"
    using assms by (simp add: exact_key_def)
  have ca: "code_alternates_spec ps d = None"
    using assms by (simp add: code_alternates_spec_def)
  show ?thesis
    using assms(2)
    by (cases "cfg_value d"; cases "the (cfg_value d)")
      (auto simp: slot_value_def slot_value_spec_def Let_def u ex ca read_property_fixed
        message_alternates_def to_alternate_def language_default_def condition_serialized_def
        declared_default_def js_or_def)
qed

text \<open>The value of a slot: the inherited member, \<open>null\<close> for the slot \<open>code\<close> that skips
  its declared default, and the value of the chain of the specification otherwise.\<close>

lemma slot_value_cases:
  "slot_value E ps t d =
     (if inherited_id ps d then Inherited (cfg_id d)
      else if code_default_skipped ps d then Json JNull
      else slot_value_spec E ps t d)"
proof (cases "map_of ps (cfg_id d)")
  case (Some v)
  then show ?thesis
    by (auto simp: slot_value_exact slot_value_spec_exact inherited_id_def code_default_skipped_def)
next
  case None
  show ?thesis
  proof (cases "cfg_id d \<in> set prototype_names")
    case True
    then have "inherited_id ps d" using None by (simp add: inherited_id_def)
    then show ?thesis by (simp add: slot_value_inherited)
  next
    case False
    then have ni: "\<not> inherited_id ps d" by (simp add: inherited_id_def)
    show ?thesis
    proof (cases "cfg_id d = ''code''")
      case False
      then have "\<not> code_default_skipped ps d" by (simp add: code_default_skipped_def)
      then show ?thesis
        using ni slot_value_other [OF None False \<open>cfg_id d \<notin> set prototype_names\<close>] by simp
    next
      case True
      show ?thesis
        using ni None True
        by (auto simp: slot_value_code [OF None True] slot_value_spec_code [OF None True]
            code_default_skipped_def declared_default_def
            split: option.splits default_value.splits)
    qed
  qed
qed

lemma first_truthy_Some: "first_truthy vs = Some v \<Longrightarrow> truthy_any v"
  by (induction vs) (auto split: if_splits)

lemma slot_value_defined: "slot_value E ps t d \<noteq> Undefined"
proof (cases "read_property ps (cfg_id d) = Undefined")
  case False
  then show ?thesis by (simp add: slot_value_def Let_def)
next
  case True
  have c: "stringify_any E (parameter ps ''conditions'') \<noteq> Undefined"
    if "truthy_any (parameter ps ''conditions'')"
    using that by (cases "parameter ps ''conditions''")
      (simp_all add: stringify_any_def parameter_not_inherited)
  show ?thesis
    using True c
    by (auto simp: slot_value_def Let_def read_property_fixed js_or_def
        dest: truthy_any_defined split: option.splits default_value.splits)
qed

section \<open>The loop over the declared slots\<close>

lemma last_declared_None: "last_declared defs k = None \<longleftrightarrow> k \<notin> cfg_id ` set defs"
  by (induction defs) (auto split: option.splits)

lemma set_property_map: "map_of (set_property i sb acc) k =
      (if i = ''__proto__'' then map_of acc k else ((map_of acc)(i \<mapsto> sb)) k)"
    by (simp add: set_property_def update_conv')

lemma set_property_keys: "fst ` set (set_property i sb acc) =
      (if i = ''__proto__'' then fst ` set acc else insert i (fst ` set acc))"
    by (simp add: set_property_def dom_update)

lemma set_property_distinct: "distinct (map fst acc) \<Longrightarrow> distinct (map fst (set_property i sb acc))"
    by (simp add: set_property_def distinct_update)

lemma last_declared_distinct:
  "distinct (map cfg_id defs) \<Longrightarrow> d \<in> set defs \<Longrightarrow> last_declared defs (cfg_id d) = Some d"
proof (induction defs)
  case Nil
  then show ?case by simp
next
  case (Cons a defs)
  show ?case
  proof (cases "d \<in> set defs")
    case True
    then show ?thesis using Cons by simp
  next
    case False
    then have "d = a" using Cons.prems by simp
    moreover have "last_declared defs (cfg_id a) = None"
      using Cons.prems(1) by (simp add: last_declared_None)
    ultimately show ?thesis by simp
  qed
qed

lemma subBlocks_loop_map:
  assumes ps: "node_parameters n = Some ps"
  shows "\<exists>subs. subBlocks_loop E n t defs acc = Inr subs \<and>
     (\<forall>k. map_of subs k =
        (if k = ''__proto__'' then map_of acc k
         else (case last_declared defs k of
                 Some d \<Rightarrow> Some (mk_subBlock (cfg_id d) (cfg_type d) (slot_value E ps t d))
               | None \<Rightarrow> map_of acc k))) \<and>
     fst ` set subs = fst ` set acc \<union> (cfg_id ` set defs - {''__proto__''}) \<and>
     (distinct (map fst acc) \<longrightarrow> distinct (map fst subs))"
proof (induction defs arbitrary: acc)
  case Nil
  show ?case by simp
next
  case (Cons d defs)
  let ?sb = "mk_subBlock (cfg_id d) (cfg_type d) (slot_value E ps t d)"
  let ?acc = "set_property (cfg_id d) ?sb acc"
  have step: "subBlocks_loop E n t (d # defs) acc = subBlocks_loop E n t defs ?acc"
    by (simp add: ps)
  from Cons.IH [of ?acc] show ?case
  proof (elim exE)
  fix subs
  assume ih: "subBlocks_loop E n t defs ?acc = Inr subs \<and>
     (\<forall>k. map_of subs k =
        (if k = ''__proto__'' then map_of ?acc k
         else (case last_declared defs k of
                 Some d \<Rightarrow> Some (mk_subBlock (cfg_id d) (cfg_type d) (slot_value E ps t d))
               | None \<Rightarrow> map_of ?acc k))) \<and>
     fst ` set subs = fst ` set ?acc \<union> (cfg_id ` set defs - {''__proto__''}) \<and>
     (distinct (map fst ?acc) \<longrightarrow> distinct (map fst subs))"
  note s = ih [THEN conjunct1]
  note m = ih [THEN conjunct2, THEN conjunct1, rule_format]
  note k = ih [THEN conjunct2, THEN conjunct2, THEN conjunct1]
  note dd = ih [THEN conjunct2, THEN conjunct2, THEN conjunct2]
  have 1: "map_of subs k =
        (if k = ''__proto__'' then map_of acc k
         else (case last_declared (d # defs) k of
                 Some d \<Rightarrow> Some (mk_subBlock (cfg_id d) (cfg_type d) (slot_value E ps t d))
               | None \<Rightarrow> map_of acc k))" for k
  proof (cases "k = ''__proto__''")
    case True
    have "map_of subs ''__proto__'' = map_of ?acc ''__proto__''"
      using m [of "''__proto__''"] by simp
    also have "\<dots> = map_of acc ''__proto__''"
      by (simp add: set_property_map)
    finally show ?thesis using True by simp
  next
    case False
    show ?thesis
    proof (cases "last_declared defs k")
      case (Some x)
      then show ?thesis using False by (simp add: m [of k])
    next
      case None
      then show ?thesis using False by (simp add: m [of k] set_property_map)
    qed
  qed
  have 2: "fst ` set subs = fst ` set acc \<union> (cfg_id ` set (d # defs) - {''__proto__''})"
    unfolding k set_property_keys by auto
  have 3: "distinct (map fst acc) \<longrightarrow> distinct (map fst subs)"
  proof
    assume "distinct (map fst acc)"
    then have "distinct (map fst ?acc)" by (rule set_property_distinct)
    then show "distinct (map fst subs)" by (rule dd [rule_format])
  qed
  have 0: "subBlocks_loop E n t (d # defs) acc = Inr subs"
    unfolding step by (rule s)
  show ?thesis
  proof (intro exI [of _ subs] conjI allI)
    show "subBlocks_loop E n t (d # defs) acc = Inr subs" by (rule 0)
    show "fst ` set subs = fst ` set acc \<union> (cfg_id ` set (d # defs) - {''__proto__''})"
      by (rule 2)
    show "distinct (map fst acc) \<longrightarrow> distinct (map fst subs)" by (rule 3)
  next
    fix k
    show "map_of subs k =
        (if k = ''__proto__'' then map_of acc k
         else (case last_declared (d # defs) k of
                 Some d \<Rightarrow> Some (mk_subBlock (cfg_id d) (cfg_type d) (slot_value E ps t d))
               | None \<Rightarrow> map_of acc k))"
      by (rule 1)
  qed
  qed
qed

lemma declared_slots:
  assumes reg: "getBlock E t = Some bd" "cfg_subBlocks bd = Some defs"
    and ps: "node_parameters n = Some ps"
  shows "\<exists>subs. convertParametersToSubBlocks E n t = Inr subs \<and>
         distinct (map fst subs) \<and>
         fst ` set subs = cfg_id ` set defs - {''__proto__''} \<and>
         length subs = card (cfg_id ` set defs - {''__proto__''}) \<and>
         (\<forall>k. map_of subs k =
            (if k = ''__proto__'' then None
             else map_option (\<lambda>d. \<lparr>sub_id = cfg_id d, sub_type = cfg_type d,
                                      sub_value = slot_value E ps t d\<rparr>)
                    (last_declared defs k))) \<and>
         (distinct (map cfg_id defs) \<and> ''__proto__'' \<notin> cfg_id ` set defs \<longrightarrow>
            length subs = length defs \<and>
            (\<forall>d \<in> set defs. map_of subs (cfg_id d) =
               Some \<lparr>sub_id = cfg_id d, sub_type = cfg_type d,
                      sub_value = slot_value E ps t d\<rparr>))"
proof -
  have c: "convertParametersToSubBlocks E n t = subBlocks_loop E n t defs []"
    using reg by (simp add: convertParametersToSubBlocks_def)
  from subBlocks_loop_map [OF ps, of E t defs "[]"] show ?thesis
  proof (elim exE)
    fix subs
    assume ih: "subBlocks_loop E n t defs [] = Inr subs \<and>
     (\<forall>k. map_of subs k =
        (if k = ''__proto__'' then map_of [] k
         else (case last_declared defs k of
                 Some d \<Rightarrow> Some (mk_subBlock (cfg_id d) (cfg_type d) (slot_value E ps t d))
               | None \<Rightarrow> map_of [] k))) \<and>
     fst ` set subs = fst ` set [] \<union> (cfg_id ` set defs - {''__proto__''}) \<and>
     (distinct (map fst []) \<longrightarrow> distinct (map fst subs))"
    note s = ih [THEN conjunct1]
    note m = ih [THEN conjunct2, THEN conjunct1, rule_format]
    note k0 = ih [THEN conjunct2, THEN conjunct2, THEN conjunct1]
    note d0 = ih [THEN conjunct2, THEN conjunct2, THEN conjunct2]
    have k: "fst ` set subs = cfg_id ` set defs - {''__proto__''}"
      using k0 by simp
    have d: "distinct (map fst subs)"
      using d0 by simp
    have m': "map_of subs k =
            (if k = ''__proto__'' then None
             else map_option (\<lambda>d. \<lparr>sub_id = cfg_id d, sub_type = cfg_type d,
                                      sub_value = slot_value E ps t d\<rparr>)
                    (last_declared defs k))" for k
      by (cases "last_declared defs k") (simp_all add: m [of k] mk_subBlock_def)
    have "length subs = length (map fst subs)" by simp
    also have "\<dots> = card (set (map fst subs))"
      using d by (rule distinct_card [symmetric])
    also have "\<dots> = card (cfg_id ` set defs - {''__proto__''})"
      using k by simp
    finally have len: "length subs = card (cfg_id ` set defs - {''__proto__''})" .
    have dist: "length subs = length defs \<and>
            (\<forall>d \<in> set defs. map_of subs (cfg_id d) =
               Some \<lparr>sub_id = cfg_id d, sub_type = cfg_type d,
                      sub_value = slot_value E ps t d\<rparr>)"
      if a: "distinct (map cfg_id defs) \<and> ''__proto__'' \<notin> cfg_id ` set defs"
    proof
      have "cfg_id ` set defs - {''__proto__''} = set (map cfg_id defs)"
        using a by auto
      moreover have "card (set (map cfg_id defs)) = length (map cfg_id defs)"
        using a by (intro distinct_card) simp
      ultimately show "length subs = length defs"
        using len by simp
      show "\<forall>d \<in> set defs. map_of subs (cfg_id d) =
               Some \<lparr>sub_id = cfg_id d, sub_type = cfg_type d,
                      sub_value = slot_value E ps t d\<rparr>"
      proof
        fix x
        assume x: "x \<in> set defs"
        then have "cfg_id x \<noteq> ''__proto__''" using a by (metis imageI)
        moreover have "last_declared defs (cfg_id x) = Some x"
          using a x by (simp add: last_declared_distinct)
        ultimately show "map_of subs (cfg_id x) =
               Some \<lparr>sub_id = cfg_id x, sub_type = cfg_type x,
                      sub_value = slot_value E ps t x\<rparr>"
          by (simp add: m' [of "cfg_id x"])
      qed
    qed
    show ?thesis
    proof (intro exI [of _ subs] conjI allI)
      show "convertParametersToSubBlocks E n t = Inr subs" unfolding c by (rule s)
      show "distinct (map fst subs)" by (rule d)
      show "fst ` set subs = cfg_id ` set defs - {''__proto__''}" by (rule k)
      show "length subs = card (cfg_id ` set defs - {''__proto__''})" by (rule len)
      show "distinct (map cfg_id defs) \<and> ''__proto__'' \<notin> cfg_id ` set defs \<longrightarrow>
              length subs = length defs \<and>
              (\<forall>d \<in> set defs. map_of subs (cfg_id d) =
                 Some \<lparr>sub_id = cfg_id d, sub_type = cfg_type d,
                        sub_value = slot_value E ps t d\<rparr>)"
        using dist by (rule impI)
    next
      fix k
      show "map_of subs k =
              (if k = ''__proto__'' then None
               else map_option (\<lambda>d. \<lparr>sub_id = cfg_id d, sub_type = cfg_type d,
                                        sub_value = slot_value E ps t d\<rparr>)
                      (last_declared defs k))"
        by (rule m')
    qed
  qed
qed

lemma slot_fields: "cfg_id (slot i t v) = i" "cfg_type (slot i t v) = t" "cfg_value (slot i t v) = v"
  by (simp_all add: slot_def)


section \<open>Slot completeness and the priority chain\<close>

text \<open>
  C6, as amended. For a type whose registry entry declares the slots \<open>defs\<close> and a node
  with parameters, the conversion to sub-blocks succeeds. The sub-blocks have distinct ids,
  which are the declared slot ids other than \<open>__proto__\<close>, so there are as many
  sub-blocks as distinct such ids; the sub-block of an id carries that id, and the declared
  type and the slot value of the last declaration of the id. When the declared ids are
  distinct and none is \<open>__proto__\<close>, there are exactly as many sub-blocks as
  declarations, and each declaration is emitted with its declared type and its slot value.
  A slot value is never \<open>undefined\<close>. It is the value of the priority chain of the
  specification (the parameter with the slot's id; the alternate keys of slot \<open>code\<close>;
  those of slot \<open>message\<close>; that of slot \<open>to\<close>; \<open>javascript\<close> for slot \<open>language\<close>
  of type \<open>function\<close>; the serialized \<open>conditions\<close> for slot \<open>condition\<close>; the declared
  default; \<open>null\<close>; an alternate key counting when its parameter is truthy) for every
  slot but two: a slot \<open>code\<close> that has a declared default and neither the parameter
  \<open>code\<close> nor a truthy alternate key, whose value is \<open>null\<close>, and a slot whose id is
  not a parameter but names a member inherited from \<open>Object.prototype\<close>, whose value is
  that member. In a successful conversion with identifiers that do not repeat, the
  sub-blocks of the node's block are as described.
\<close>

theorem slot_completeness:
  "(getBlock E t = Some bd \<and> cfg_subBlocks bd = Some defs \<and> node_parameters n = Some ps \<longrightarrow>
      (\<exists>subs. convertParametersToSubBlocks E n t = Inr subs \<and>
         distinct (map fst subs) \<and>
         fst ` set subs = cfg_id ` set defs - {''__proto__''} \<and>
         length subs = card (cfg_id ` set defs - {''__proto__''}) \<and>
         (\<forall>k. map_of subs k =
            (if k = ''__proto__'' then None
             else map_option (\<lambda>d. \<lparr>sub_id = cfg_id d, sub_type = cfg_type d,
                                      sub_value = slot_value E ps t d\<rparr>)
                    (last_declared defs k))) \<and>
         (distinct (map cfg_id defs) \<and> ''__proto__'' \<notin> cfg_id ` set defs \<longrightarrow>
            length subs = length defs \<and>
            (\<forall>d \<in> set defs. map_of subs (cfg_id d) =
               Some \<lparr>sub_id = cfg_id d, sub_type = cfg_type d,
                      sub_value = slot_value E ps t d\<rparr>)))) \<and>
   (\<forall>d. slot_value E ps t d \<noteq> Undefined \<and>
        slot_value E ps t d =
          (if inherited_id ps d then Inherited (cfg_id d)
           else if code_default_skipped ps d then Json JNull
           else slot_value_spec E ps t d)) \<and>
   (success (convertN8NToSim E w) \<and> inj (uuid_nth E) \<and> nodes w = ns1 @ n # ns2 \<and> \<not> sticky n \<and>
    getBlock E (fst (final_type E n)) = Some bd \<and> cfg_subBlocks bd = Some defs \<and>
    node_parameters n = Some ps \<longrightarrow>
      (\<exists>wf b. workflow (convertN8NToSim E w) = Some wf \<and>
         map_of (blocks (state wf)) (uuid_nth E (length (retained ns1))) = Some b \<and>
         block_name b = node_name n \<and>
         distinct (map fst (subBlocks b)) \<and>
         fst ` set (subBlocks b) = cfg_id ` set defs - {''__proto__''} \<and>
         length (subBlocks b) = card (cfg_id ` set defs - {''__proto__''}) \<and>
         (\<forall>k. map_of (subBlocks b) k =
            (if k = ''__proto__'' then None
             else map_option (\<lambda>d. \<lparr>sub_id = cfg_id d, sub_type = cfg_type d,
                                      sub_value = slot_value E ps (fst (final_type E n)) d\<rparr>)
                    (last_declared defs k))) \<and>
         (distinct (map cfg_id defs) \<and> ''__proto__'' \<notin> cfg_id ` set defs \<longrightarrow>
            length (subBlocks b) = length defs \<and>
            (\<forall>d \<in> set defs. map_of (subBlocks b) (cfg_id d) =
               Some \<lparr>sub_id = cfg_id d, sub_type = cfg_type d,
                      sub_value = slot_value E ps (fst (final_type E n)) d\<rparr>))))"
proof (intro conjI impI allI)
  assume "getBlock E t = Some bd \<and> cfg_subBlocks bd = Some defs \<and> node_parameters n = Some ps"
  then have "getBlock E t = Some bd" "cfg_subBlocks bd = Some defs" "node_parameters n = Some ps"
    by simp_all
  then show "\<exists>subs. convertParametersToSubBlocks E n t = Inr subs \<and>
         distinct (map fst subs) \<and>
         fst ` set subs = cfg_id ` set defs - {''__proto__''} \<and>
         length subs = card (cfg_id ` set defs - {''__proto__''}) \<and>
         (\<forall>k. map_of subs k =
            (if k = ''__proto__'' then None
             else map_option (\<lambda>d. \<lparr>sub_id = cfg_id d, sub_type = cfg_type d,
                                      sub_value = slot_value E ps t d\<rparr>)
                    (last_declared defs k))) \<and>
         (distinct (map cfg_id defs) \<and> ''__proto__'' \<notin> cfg_id ` set defs \<longrightarrow>
            length subs = length defs \<and>
            (\<forall>d \<in> set defs. map_of subs (cfg_id d) =
               Some \<lparr>sub_id = cfg_id d, sub_type = cfg_type d,
                      sub_value = slot_value E ps t d\<rparr>))"
    by (rule declared_slots)
next
  fix d
  show "slot_value E ps t d \<noteq> Undefined" by (rule slot_value_defined)
next
  fix d
  show "slot_value E ps t d =
          (if inherited_id ps d then Inherited (cfg_id d)
           else if code_default_skipped ps d then Json JNull
           else slot_value_spec E ps t d)"
    by (rule slot_value_cases)
next
  assume a: "success (convertN8NToSim E w) \<and> inj (uuid_nth E) \<and> nodes w = ns1 @ n # ns2 \<and>
    \<not> sticky n \<and> getBlock E (fst (final_type E n)) = Some bd \<and> cfg_subBlocks bd = Some defs \<and>
    node_parameters n = Some ps"
  then have ok: "success (convertN8NToSim E w)" and inj: "inj (uuid_nth E)"
    and pos: "nodes w = ns1 @ n # ns2" and kept: "\<not> sticky n"
    and reg: "getBlock E (fst (final_type E n)) = Some bd" "cfg_subBlocks bd = Some defs"
    and ps: "node_parameters n = Some ps"
    by simp_all
  from produced_subBlocks [OF ok inj pos kept] obtain wf b where
    wf: "workflow (convertN8NToSim E w) = Some wf"
    and b: "map_of (blocks (state wf)) (uuid_nth E (length (retained ns1))) = Some b"
    and nm: "block_name b = node_name n"
    and sb: "convertParametersToSubBlocks E n (fst (final_type E n)) = Inr (subBlocks b)"
    by blast
  from declared_slots [OF reg ps] sb
  have q: "distinct (map fst (subBlocks b)) \<and>
         fst ` set (subBlocks b) = cfg_id ` set defs - {''__proto__''} \<and>
         length (subBlocks b) = card (cfg_id ` set defs - {''__proto__''}) \<and>
         (\<forall>k. map_of (subBlocks b) k =
            (if k = ''__proto__'' then None
             else map_option (\<lambda>d. \<lparr>sub_id = cfg_id d, sub_type = cfg_type d,
                                      sub_value = slot_value E ps (fst (final_type E n)) d\<rparr>)
                    (last_declared defs k))) \<and>
         (distinct (map cfg_id defs) \<and> ''__proto__'' \<notin> cfg_id ` set defs \<longrightarrow>
            length (subBlocks b) = length defs \<and>
            (\<forall>d \<in> set defs. map_of (subBlocks b) (cfg_id d) =
               Some \<lparr>sub_id = cfg_id d, sub_type = cfg_type d,
                      sub_value = slot_value E ps (fst (final_type E n)) d\<rparr>))"
    by (elim exE conjE) (simp only: sum.inject, simp)
  show "\<exists>wf b. workflow (convertN8NToSim E w) = Some wf \<and>
         map_of (blocks (state wf)) (uuid_nth E (length (retained ns1))) = Some b \<and>
         block_name b = node_name n \<and>
         distinct (map fst (subBlocks b)) \<and>
         fst ` set (subBlocks b) = cfg_id ` set defs - {''__proto__''} \<and>
         length (subBlocks b) = card (cfg_id ` set defs - {''__proto__''}) \<and>
         (\<forall>k. map_of (subBlocks b) k =
            (if k = ''__proto__'' then None
             else map_option (\<lambda>d. \<lparr>sub_id = cfg_id d, sub_type = cfg_type d,
                                      sub_value = slot_value E ps (fst (final_type E n)) d\<rparr>)
                    (last_declared defs k))) \<and>
         (distinct (map cfg_id defs) \<and> ''__proto__'' \<notin> cfg_id ` set defs \<longrightarrow>
            length (subBlocks b) = length defs \<and>
            (\<forall>d \<in> set defs. map_of (subBlocks b) (cfg_id d) =
               Some \<lparr>sub_id = cfg_id d, sub_type = cfg_type d,
                      sub_value = slot_value E ps (fst (final_type E n)) d\<rparr>))"
    using conjI [OF wf conjI [OF b conjI [OF nm q]]] by (intro exI)
qed

theorem slot_completeness_witness:
  "success (convertN8NToSim registry_env param_workflow) \<and> inj (uuid_nth registry_env) \<and>
   nodes param_workflow = [] @ code_node # [http_node] \<and> \<not> sticky code_node \<and>
   getBlock registry_env (fst (final_type registry_env code_node)) =
     Some \<lparr>cfg_subBlocks = Some function_slots, cfg_outputs = None\<rparr> \<and>
   node_parameters code_node = Some [(''jsCode'', JStr ''return 1''), (''timeout'', JNum 5)] \<and>
   distinct (map cfg_id function_slots) \<and> ''__proto__'' \<notin> cfg_id ` set function_slots \<and>
   (\<exists>wf b. workflow (convertN8NToSim registry_env param_workflow) = Some wf \<and>
      map_of (blocks (state wf)) (uuid_nth registry_env (length (retained []))) = Some b \<and>
      length (subBlocks b) = 4 \<and>
      map_of (subBlocks b) ''code'' =
        Some \<lparr>sub_id = ''code'', sub_type = ''code'', sub_value = Json (JStr ''return 1'')\<rparr> \<and>
      map_of (subBlocks b) ''language'' =
        Some \<lparr>sub_id = ''language'', sub_type = ''dropdown'',
               sub_value = Json (JStr ''javascript'')\<rparr> \<and>
      map_of (subBlocks b) ''timeout'' =
        Some \<lparr>sub_id = ''timeout'', sub_type = ''short-input'', sub_value = Json (JNum 5)\<rparr> \<and>
      map_of (subBlocks b) ''notes'' =
        Some \<lparr>sub_id = ''notes'', sub_type = ''long-input'', sub_value = Json JNull\<rparr>) \<and>
   getBlock registry_env ''wait'' = Some \<lparr>cfg_subBlocks = Some wait_slots, cfg_outputs = None\<rparr> \<and>
   (\<exists>subs. convertParametersToSubBlocks registry_env
              (param_node ''Wait'' ''n8n-nodes-base.wait'' []) ''wait'' = Inr subs \<and>
      length subs = 1 \<and>
      map_of subs ''code'' =
        Some \<lparr>sub_id = ''code'', sub_type = ''long-input'', sub_value = Json JNull\<rparr>)"
proof -
  let ?ps = "[(''jsCode'', JStr ''return 1''), (''timeout'', JNum 5)]"
  let ?bd = "\<lparr>cfg_subBlocks = Some function_slots, cfg_outputs = None\<rparr>"
  let ?t = "fst (final_type registry_env code_node)"
  have ok: "success (convertN8NToSim registry_env param_workflow)"
    by code_simp
  have inj: "inj (uuid_nth registry_env)"
    using demo_fresh by (simp add: fresh_ids_def registry_env_def demo_env_def)
  have pos: "nodes param_workflow = [] @ code_node # [http_node]"
    by (simp add: param_workflow_def)
  have kept: "\<not> sticky code_node"
    by code_simp
  have reg: "getBlock registry_env ?t = Some ?bd"
    by code_simp
  have sub: "cfg_subBlocks ?bd = Some function_slots"
    by simp
  have ps: "node_parameters code_node = Some ?ps"
    by (simp add: code_node_def param_node_def)
  have d: "distinct (map cfg_id function_slots)"
    by (simp add: function_slots_def slot_def)
  have np: "''__proto__'' \<notin> cfg_id ` set function_slots"
    by (simp add: function_slots_def slot_def)
  have len: "length function_slots = 4"
    by (simp add: function_slots_def)
  have sv: "slot_value registry_env ?ps ?t (slot ''code'' ''code'' None) = Json (JStr ''return 1'')"
    "slot_value registry_env ?ps ?t (slot ''language'' ''dropdown'' (Some (Fixed (JStr ''python'')))) =
       Json (JStr ''javascript'')"
    "slot_value registry_env ?ps ?t (slot ''timeout'' ''short-input'' (Some (Computed (JNum 30)))) =
       Json (JNum 5)"
    "slot_value registry_env ?ps ?t (slot ''notes'' ''long-input'' None) = Json JNull"
    by code_simp+
  have hyp: "success (convertN8NToSim registry_env param_workflow) \<and> inj (uuid_nth registry_env) \<and>
    nodes param_workflow = [] @ code_node # [http_node] \<and> \<not> sticky code_node \<and>
    getBlock registry_env ?t = Some ?bd \<and> cfg_subBlocks ?bd = Some function_slots \<and>
    node_parameters code_node = Some ?ps"
    using ok inj pos kept reg sub ps by (intro conjI)
  note th = slot_completeness [of registry_env "''function''" ?bd function_slots code_node ?ps
      param_workflow "[]" "[http_node]", THEN conjunct2, THEN conjunct2, THEN mp, OF hyp]
  from th obtain wf b where
    wf: "workflow (convertN8NToSim registry_env param_workflow) = Some wf"
    and b: "map_of (blocks (state wf)) (uuid_nth registry_env (length (retained []))) = Some b"
    and m: "\<forall>k. map_of (subBlocks b) k =
            (if k = ''__proto__'' then None
             else map_option (\<lambda>d. \<lparr>sub_id = cfg_id d, sub_type = cfg_type d,
                                      sub_value = slot_value registry_env ?ps ?t d\<rparr>)
                    (last_declared function_slots k))"
    and n: "distinct (map cfg_id function_slots) \<and> ''__proto__'' \<notin> cfg_id ` set function_slots \<longrightarrow>
            length (subBlocks b) = length function_slots \<and>
            (\<forall>d \<in> set function_slots. map_of (subBlocks b) (cfg_id d) =
               Some \<lparr>sub_id = cfg_id d, sub_type = cfg_type d,
                      sub_value = slot_value registry_env ?ps ?t d\<rparr>)"
    by (elim exE conjE)
  have 1: "length (subBlocks b) = 4"
    using n d np len by simp
  have 2: "map_of (subBlocks b) ''code'' =
        Some \<lparr>sub_id = ''code'', sub_type = ''code'', sub_value = Json (JStr ''return 1'')\<rparr>"
    using m [rule_format, of "''code''"] by (simp add: function_slots_def slot_fields sv)
  have 3: "map_of (subBlocks b) ''language'' =
        Some \<lparr>sub_id = ''language'', sub_type = ''dropdown'',
               sub_value = Json (JStr ''javascript'')\<rparr>"
    using m [rule_format, of "''language''"] by (simp add: function_slots_def slot_fields sv)
  have 4: "map_of (subBlocks b) ''timeout'' =
        Some \<lparr>sub_id = ''timeout'', sub_type = ''short-input'', sub_value = Json (JNum 5)\<rparr>"
    using m [rule_format, of "''timeout''"] by (simp add: function_slots_def slot_fields sv)
  have 5: "map_of (subBlocks b) ''notes'' =
        Some \<lparr>sub_id = ''notes'', sub_type = ''long-input'', sub_value = Json JNull\<rparr>"
    using m [rule_format, of "''notes''"] by (simp add: function_slots_def slot_fields sv)
  have blk: "\<exists>wf b. workflow (convertN8NToSim registry_env param_workflow) = Some wf \<and>
      map_of (blocks (state wf)) (uuid_nth registry_env (length (retained []))) = Some b \<and>
      length (subBlocks b) = 4 \<and>
      map_of (subBlocks b) ''code'' =
        Some \<lparr>sub_id = ''code'', sub_type = ''code'', sub_value = Json (JStr ''return 1'')\<rparr> \<and>
      map_of (subBlocks b) ''language'' =
        Some \<lparr>sub_id = ''language'', sub_type = ''dropdown'',
               sub_value = Json (JStr ''javascript'')\<rparr> \<and>
      map_of (subBlocks b) ''timeout'' =
        Some \<lparr>sub_id = ''timeout'', sub_type = ''short-input'', sub_value = Json (JNum 5)\<rparr> \<and>
      map_of (subBlocks b) ''notes'' =
        Some \<lparr>sub_id = ''notes'', sub_type = ''long-input'', sub_value = Json JNull\<rparr>"
    using conjI [OF wf conjI [OF b conjI [OF 1 conjI [OF 2 conjI [OF 3 conjI [OF 4 5]]]]]]
    by (intro exI)
  let ?wn = "param_node ''Wait'' ''n8n-nodes-base.wait'' []"
  let ?wd = "\<lparr>cfg_subBlocks = Some wait_slots, cfg_outputs = None\<rparr>"
  have wreg: "getBlock registry_env ''wait'' = Some ?wd"
    by (simp add: registry_env_def)
  have whyp: "getBlock registry_env ''wait'' = Some ?wd \<and> cfg_subBlocks ?wd = Some wait_slots \<and>
    node_parameters ?wn = Some []"
    using wreg by (simp add: param_node_def)
  have wsv: "slot_value registry_env [] ''wait'' (slot ''code'' ''long-input'' (Some (Fixed (JStr ''sleep'')))) =
      Json JNull"
    by code_simp
  have wc: "card (cfg_id ` set wait_slots - {''__proto__''}) = 1"
    by (simp add: wait_slots_def slot_fields)
  note tw = slot_completeness [of registry_env "''wait''" ?wd wait_slots ?wn "[]"
      param_workflow "[]" "[http_node]", THEN conjunct1, THEN mp, OF whyp]
  from tw obtain subs where
    s: "convertParametersToSubBlocks registry_env ?wn ''wait'' = Inr subs"
    and sl: "length subs = card (cfg_id ` set wait_slots - {''__proto__''})"
    and sm: "\<forall>k. map_of subs k =
            (if k = ''__proto__'' then None
             else map_option (\<lambda>d. \<lparr>sub_id = cfg_id d, sub_type = cfg_type d,
                                      sub_value = slot_value registry_env [] ''wait'' d\<rparr>)
                    (last_declared wait_slots k))"
    by (elim exE conjE)
  have w1: "length subs = 1"
    using sl wc by simp
  have w2: "map_of subs ''code'' =
        Some \<lparr>sub_id = ''code'', sub_type = ''long-input'', sub_value = Json JNull\<rparr>"
    using sm [rule_format, of "''code''"] by (simp add: wait_slots_def slot_fields wsv)
  have wt: "\<exists>subs. convertParametersToSubBlocks registry_env ?wn ''wait'' = Inr subs \<and>
      length subs = 1 \<and>
      map_of subs ''code'' =
        Some \<lparr>sub_id = ''code'', sub_type = ''long-input'', sub_value = Json JNull\<rparr>"
    using conjI [OF s conjI [OF w1 w2]] by (intro exI)
  show ?thesis
    by (intro conjI ok inj pos kept reg ps d np blk wreg wt)
qed

text \<open>
  The two other departures of the code, on slot ids that are names of members of
  \<open>Object.prototype\<close>: a slot \<open>constructor\<close> of a node without such a parameter takes the
  inherited member as its value, where the chain reaches the declared default; and a
  slot \<open>__proto__\<close> leaves no sub-block.
\<close>

lemma departures_on_member_names:
  "slot_value registry_env [] ''function''
     (slot ''constructor'' ''short-input'' (Some (Fixed (JStr ''x'')))) = Inherited ''constructor'' \<and>
   slot_value_spec registry_env [] ''function''
     (slot ''constructor'' ''short-input'' (Some (Fixed (JStr ''x'')))) = Json (JStr ''x'') \<and>
   subBlocks_loop registry_env (param_node ''N'' ''n8n-nodes-base.code'' []) ''function''
     [slot ''__proto__'' ''short-input'' None, slot ''notes'' ''long-input'' None] [] =
     Inr [(''notes'', \<lparr>sub_id = ''notes'', sub_type = ''long-input'', sub_value = Json JNull\<rparr>)]"
  by code_simp

text \<open>
  C6 as stated fails in three ways. The type \<open>wait\<close> of the sample registry declares the
  slot \<open>code\<close> twice with the default \<open>sleep\<close>: a node with an empty parameters object
  gets one sub-block for the two declarations, and its value is \<open>null\<close>, where the chain
  of the specification reaches the declared default. And a slot \<open>to\<close> with a declared
  default takes that default on a node whose parameter \<open>sendTo\<close> is the empty string:
  the alternate key has a defined value, at which the chain as stated stops, but the code
  takes an alternate key only when its value is truthy.
\<close>

theorem slot_completeness_counterexample:
  "getBlock registry_env ''wait'' = Some \<lparr>cfg_subBlocks = Some wait_slots, cfg_outputs = None\<rparr> \<and>
   length wait_slots = 2 \<and>
   convertParametersToSubBlocks registry_env (param_node ''Wait'' ''n8n-nodes-base.wait'' []) ''wait'' =
     Inr [(''code'', \<lparr>sub_id = ''code'', sub_type = ''long-input'', sub_value = Json JNull\<rparr>)] \<and>
   slot_value registry_env [] ''wait'' (slot ''code'' ''code'' (Some (Fixed (JStr ''sleep'')))) =
     Json JNull \<and>
   slot_value_spec registry_env [] ''wait'' (slot ''code'' ''code'' (Some (Fixed (JStr ''sleep'')))) =
     Json (JStr ''sleep'') \<and>
   parameter [(''sendTo'', JStr [])] ''sendTo'' = Json (JStr []) \<and>
   slot_value registry_env [(''sendTo'', JStr [])] ''wait''
     (slot ''to'' ''short-input'' (Some (Fixed (JStr ''nobody'')))) = Json (JStr ''nobody'')"
proof -
  have 1: "getBlock registry_env ''wait'' =
      Some \<lparr>cfg_subBlocks = Some wait_slots, cfg_outputs = None\<rparr>"
    by (simp add: registry_env_def)
  have 2: "length wait_slots = 2"
    by (simp add: wait_slots_def)
  have 3: "convertParametersToSubBlocks registry_env
      (param_node ''Wait'' ''n8n-nodes-base.wait'' []) ''wait'' =
     Inr [(''code'', \<lparr>sub_id = ''code'', sub_type = ''long-input'', sub_value = Json JNull\<rparr>)]"
    by code_simp
  have 4: "slot_value registry_env [] ''wait'' (slot ''code'' ''code'' (Some (Fixed (JStr ''sleep'')))) =
     Json JNull"
    by code_simp
  have 5: "slot_value_spec registry_env [] ''wait''
      (slot ''code'' ''code'' (Some (Fixed (JStr ''sleep'')))) = Json (JStr ''sleep'')"
    by code_simp
  have 6: "parameter [(''sendTo'', JStr [])] ''sendTo'' = Json (JStr [])"
    by (simp add: parameter_def)
  have 7: "slot_value registry_env [(''sendTo'', JStr [])] ''wait''
     (slot ''to'' ''short-input'' (Some (Fixed (JStr ''nobody'')))) = Json (JStr ''nobody'')"
    by code_simp
  show ?thesis by (intro conjI 1 2 3 4 5 6 7)
qed


lemma get_prop_raises: "get_prop v k = Inl e \<longleftrightarrow> (v = None \<or> v = Some JNull)"
  by (cases "(v, k)" rule: get_prop.cases) (auto, (cases e, simp)+)

lemma validate_node_raises: "validate_node node = Inl e \<longleftrightarrow> node = JNull"
proof
  assume "validate_node node = Inl e"
  then show "node = JNull"
    by (cases node) (auto simp: validate_node_def split: sum.splits if_splits)
next
  assume "node = JNull"
  then show "validate_node node = Inl e"
    by (cases e) (simp add: validate_node_def)
qed

lemma validate_node_passes: "validate_node node = Inr None \<longleftrightarrow> well_formed_node node"
proof (cases node)
  case (JObj ps)
  show ?thesis
  proof (cases "map_of ps ''name''")
    case None
    then show ?thesis by (simp add: JObj validate_node_def truthy_def)
  next
    case (Some nm)
    note nm = Some
    show ?thesis
    proof (cases "map_of ps ''type''")
      case None
      then show ?thesis
        using nm by (cases nm) (simp_all add: JObj validate_node_def truthy_def)
    next
      case (Some ty)
      note ty = Some
      show ?thesis
      proof (cases "map_of ps ''position''")
        case None
        then show ?thesis
          using nm ty by (cases nm; cases ty) (simp_all add: JObj validate_node_def truthy_def)
      next
        case (Some ps')
        then show ?thesis
          using nm ty
          by (cases nm; cases ty; cases ps')
            (auto simp add: JObj validate_node_def truthy_def)
      qed
    qed
  qed
qed (simp_all add: validate_node_def truthy_def)

text \<open>The node loop returns a verdict unless it meets a \<open>null\<close> element after well-formed
  ones, and its verdict is \<open>valid\<close> exactly when every element is well-formed.\<close>

lemma validate_nodes_returns:
  "JNull \<notin> set ns \<Longrightarrow> \<exists>v. validate_nodes ns = Inr v"
proof (induction ns)
  case Nil
  show ?case by simp
next
  case (Cons node ns)
  then have "node \<noteq> JNull" by auto
  then obtain r where r: "validate_node node = Inr r"
    using validate_node_raises [of node] by (cases "validate_node node") auto
  show ?case
    using Cons r by (cases r) auto
qed

lemma validate_nodes_valid:
  "validate_nodes ns = Inr v \<Longrightarrow> valid v \<longleftrightarrow> list_all well_formed_node ns"
proof (induction ns)
  case Nil
  then show ?case by auto
next
  case (Cons node ns)
  show ?case
  proof (cases "validate_node node")
    case (Inl e)
    then show ?thesis using Cons.prems by simp
  next
    case (Inr r)
    show ?thesis
    proof (cases r)
      case None
      then have "well_formed_node node"
        using Inr validate_node_passes by simp
      then show ?thesis using Cons Inr None by simp
    next
      case (Some bad)
      then have nw: "\<not> well_formed_node node"
        using Inr validate_node_passes [of node] by simp
      have "v = bad" using Cons.prems Inr Some by simp
      moreover have "\<not> valid bad"
        using Inr Some
        by (auto simp: validate_node_def invalid_def split: sum.splits if_splits)
      ultimately show ?thesis using nw by simp
    qed
  qed
qed

section \<open>The structural validator\<close>

text \<open>
  C9: the code departs from the claim. The validator reads \<open>node.name\<close> of each element
  of \<open>nodes\<close> without checking that the element is not \<open>null\<close>, so on the input
  \<open>{"nodes": [null], "connections": {}}\<close> it raises a \<open>TypeError\<close> instead of
  returning a verdict.
\<close>

theorem validate_null_node_raises:
  "validateN8NWorkflow (Some (JObj [(''nodes'', JArr [JNull]), (''connections'', JObj [])])) =
     Inl TypeError"
  by (simp add: validateN8NWorkflow_def validate_node_def truthy_def)

theorem validate_null_node_raises_witness:
  "\<not> (\<exists>v. validateN8NWorkflow
            (Some (JObj [(''nodes'', JArr [JNull]), (''connections'', JObj [])])) = Inr v)"
  using validate_null_node_raises by simp

text \<open>
  On every other input the validator behaves as the claim says: it returns a verdict
  whenever no element of \<open>nodes\<close> is \<open>null\<close>, and a returned verdict is \<open>valid\<close>
  exactly when the input is an object whose \<open>nodes\<close> is a non-empty array of well-formed
  nodes and whose \<open>connections\<close> is an object or an array.
\<close>

lemma validate_returns:
  assumes "\<And>ps ns. data = Some (JObj ps) \<Longrightarrow> map_of ps ''nodes'' = Some (JArr ns) \<Longrightarrow> JNull \<notin> set ns"
  shows "\<exists>v. validateN8NWorkflow data = Inr v"
proof (cases data)
  case None
  then show ?thesis by (simp add: validateN8NWorkflow_def truthy_def)
next
  case (Some j)
  show ?thesis
  proof (cases j)
    case (JObj ps)
    show ?thesis
    proof (cases "map_of ps ''nodes''")
      case None
      then show ?thesis by (simp add: Some JObj validateN8NWorkflow_def truthy_def)
    next
      case (Some nsv)
      note nodes = Some
      show ?thesis
      proof (cases nsv)
        case (JArr ns)
        have "JNull \<notin> set ns" using assms \<open>data = Some j\<close> JObj nodes JArr by simp
        from validate_nodes_returns [OF this] obtain v where "validate_nodes ns = Inr v" by blast
        then show ?thesis
          using \<open>data = Some j\<close> JObj nodes JArr
          by (cases "map_of ps ''connections''")
            (auto simp: validateN8NWorkflow_def truthy_def)
      qed (simp_all add: \<open>data = Some j\<close> JObj nodes validateN8NWorkflow_def truthy_def)
    qed
  qed (simp_all add: Some validateN8NWorkflow_def truthy_def)
qed

lemma validate_valid:
  assumes "validateN8NWorkflow data = Inr v"
  shows "valid v \<longleftrightarrow>
     (\<exists>ps ns cs. data = Some (JObj ps) \<and> map_of ps ''nodes'' = Some (JArr ns) \<and> ns \<noteq> [] \<and>
        map_of ps ''connections'' = Some cs \<and> ((\<exists>x. cs = JObj x) \<or> (\<exists>y. cs = JArr y)) \<and>
        list_all well_formed_node ns)"
proof (cases data)
  case None
  then show ?thesis using assms by (auto simp: validateN8NWorkflow_def truthy_def invalid_def)
next
  case (Some j)
  show ?thesis
  proof (cases j)
    case (JObj ps)
    show ?thesis
    proof (cases "map_of ps ''nodes''")
      case None
      then show ?thesis
        using assms by (auto simp: Some JObj validateN8NWorkflow_def truthy_def invalid_def)
    next
      case (Some nsv)
      note nodes = Some
      show ?thesis
      proof (cases nsv)
        case (JArr ns)
        show ?thesis
        proof (cases "ns = []")
          case True
          then show ?thesis
            using assms \<open>data = Some j\<close> JObj nodes JArr
            by (auto simp: validateN8NWorkflow_def truthy_def invalid_def)
        next
          case False
          show ?thesis
          proof (cases "map_of ps ''connections''")
            case None
            then show ?thesis
              using assms \<open>data = Some j\<close> JObj nodes JArr False
              by (auto simp: validateN8NWorkflow_def truthy_def invalid_def)
          next
            case (Some cs)
            show ?thesis
            proof (cases "(\<exists>x. cs = JObj x) \<or> (\<exists>y. cs = JArr y)")
              case True
              then have "validate_nodes ns = Inr v"
                using assms \<open>data = Some j\<close> JObj nodes JArr False Some
                by (auto simp: validateN8NWorkflow_def truthy_def)
              from validate_nodes_valid [OF this] show ?thesis
                using \<open>data = Some j\<close> JObj nodes JArr False Some True by simp
            next
              case False
              then have "v = invalid (''Invalid workflow: missing or invalid '' @ dq @
                                       ''connections'' @ dq @ '' object'')"
                using assms \<open>data = Some j\<close> JObj nodes JArr \<open>ns \<noteq> []\<close> Some
                by (cases cs) (auto simp: validateN8NWorkflow_def truthy_def)
              then show ?thesis
                using False \<open>data = Some j\<close> JObj Some by (auto simp: invalid_def)
            qed
          qed
        qed
      qed (use assms \<open>data = Some j\<close> JObj nodes in
            \<open>auto simp: validateN8NWorkflow_def truthy_def invalid_def\<close>)
    qed
  qed (use assms Some in \<open>auto simp: validateN8NWorkflow_def truthy_def invalid_def\<close>)
qed

end
